(* ===== verification/Prelude.thy ===== *)
theory Prelude
  imports Main "HOL-Library.State_Monad"
begin

text \<open>
  Shared vocabulary of the development: the names of the model's base types
  (DIDs, abilities, content identifiers, epoch times), the collections of
  rewrite rules the component theories fill, and generic facts on lists,
  error-or-list results and maps that the evaluator, the resolver and the
  storage model all use.
\<close>

section \<open>Base types\<close>

type_synonym did = string
type_synonym ability = string
type_synonym cid = nat
type_synonym epoch = int

section \<open>Rule collections\<close>

text \<open>
  \<open>builder_simps\<close> collects the unfolding equations of the clause builders
  (the functions that allocate variables and assemble clause trees), so that
  a concrete query is built by \<open>simp add: builder_simps\<close>.
  \<open>index_simps\<close> collects the rules that compute lookups in a built
  fact index.
\<close>

named_theorems builder_simps
named_theorems index_simps

section \<open>Ordered union and result sequencing\<close>

text \<open>
  Appending the elements of a second list that are not yet present keeps the
  order of first occurrence; the resolver merges ability lists and proof lists
  this way.
\<close>

fun union_list :: "'a list \<Rightarrow> 'a list \<Rightarrow> 'a list" where
  "union_list xs [] = xs"
| "union_list xs (y # ys) = union_list (if y \<in> set xs then xs else xs @ [y]) ys"

text \<open>
  A list of computations that each fail or return a list is run in order: the
  first failure is the result, otherwise the lists are concatenated. This is
  how a conjunction runs its right operand once per binding of its left one.
\<close>

fun seq_results :: "('e + 'a list) list \<Rightarrow> 'e + 'a list" where
  "seq_results [] = Inr []"
| "seq_results (Inl e # rs) = Inl e"
| "seq_results (Inr xs # rs) =
     (case seq_results rs of Inl e \<Rightarrow> Inl e | Inr ys \<Rightarrow> Inr (xs @ ys))"

lemma set_union_list [simp]: "set (union_list xs ys) = set xs \<union> set ys"
  by (induction xs ys rule: union_list.induct) auto

lemma distinct_union_list [simp]: "distinct xs \<Longrightarrow> distinct (union_list xs ys)"
  by (induction xs ys rule: union_list.induct) auto

lemma union_list_prefix: "\<exists>zs. union_list xs ys = xs @ zs"
proof (induction xs ys rule: union_list.induct)
  case (2 xs y ys)
  then obtain zs where
    "union_list (if y \<in> set xs then xs else xs @ [y]) ys = (if y \<in> set xs then xs else xs @ [y]) @ zs"
    by blast
  then have "union_list xs (y # ys) = xs @ ((if y \<in> set xs then [] else [y]) @ zs)"
    by (cases "y \<in> set xs") auto
  then show ?case by blast
qed simp

lemma union_list_append: "union_list xs (ys @ zs) = union_list (union_list xs ys) zs"
  by (induction xs ys rule: union_list.induct) auto

lemma union_list_subset [simp]: "set ys \<subseteq> set xs \<Longrightarrow> union_list xs ys = xs"
  by (induction xs ys rule: union_list.induct) auto

section \<open>Partial maps over lists\<close>

lemma mem_map_filter [simp]:
  "y \<in> set (List.map_filter f xs) \<longleftrightarrow> (\<exists>x \<in> set xs. f x = Some y)"
  by (induction xs) (auto split: option.splits)

lemma map_filter_filter_irrelevant:
  "(\<And>x. x \<in> set xs \<Longrightarrow> \<not> P x \<Longrightarrow> f x = None) \<Longrightarrow>
   List.map_filter f (filter P xs) = List.map_filter f xs"
  by (induction xs) (auto split: option.splits)

section \<open>Sequencing error-or-list results\<close>

lemma seq_results_Inr_iff:
  "seq_results rs = Inr zs \<longleftrightarrow> (\<exists>xss. rs = map Inr xss \<and> zs = concat xss)"
proof (induction rs arbitrary: zs rule: seq_results.induct)
  case (3 xs rs)
  have "seq_results (Inr xs # rs) = Inr zs \<longleftrightarrow> (\<exists>ys. seq_results rs = Inr ys \<and> zs = xs @ ys)"
    by (auto split: sum.splits)
  also have "\<dots> \<longleftrightarrow> (\<exists>xss. rs = map Inr xss \<and> zs = xs @ concat xss)"
    using "3.IH" by auto
  also have "\<dots> \<longleftrightarrow> (\<exists>xss. Inr xs # rs = map Inr xss \<and> zs = concat xss)"
    by (auto simp: map_eq_Cons_conv) (metis concat.simps(2) list.simps(9))
  finally show ?case .
qed auto

lemma seq_results_map_Inr [simp]: "seq_results (map Inr xss) = Inr (concat xss)"
  using seq_results_Inr_iff by blast

lemma seq_results_Inl_ex:
  "seq_results rs = Inl e \<Longrightarrow> Inl e \<in> set rs"
  by (induction rs rule: seq_results.induct) (auto split: sum.splits)

lemma seq_results_map_Inr_elem:
  assumes "seq_results (map f xs) = Inr zs" and "x \<in> set xs"
  shows "\<exists>ys. f x = Inr ys \<and> set ys \<subseteq> set zs"
proof -
  obtain xss where m: "map f xs = map Inr xss" and z: "zs = concat xss"
    using assms(1) seq_results_Inr_iff by blast
  from assms(2) obtain i where i: "i < length xs" "xs ! i = x"
    by (auto simp: in_set_conv_nth)
  from m i have "f x = Inr (xss ! i)"
    by (metis length_map nth_map)
  moreover from m i have "xss ! i \<in> set xss"
    by (metis length_map nth_mem)
  ultimately show ?thesis using z by auto
qed

lemma seq_results_map_elem:
  assumes "seq_results (map f xs) = Inr zs" and "z \<in> set zs"
  shows "\<exists>x \<in> set xs. \<exists>ys. f x = Inr ys \<and> z \<in> set ys"
proof -
  obtain xss where m: "map f xs = map Inr xss" and zs: "zs = concat xss"
    using assms(1) seq_results_Inr_iff by blast
  from assms(2) zs obtain ys where ys: "ys \<in> set xss" "z \<in> set ys" by auto
  then obtain i where i: "i < length xss" "xss ! i = ys"
    by (auto simp: in_set_conv_nth)
  from m have "length xs = length xss" by (metis length_map)
  with m i have "f (xs ! i) = Inr ys" "xs ! i \<in> set xs"
    by (metis nth_map, simp add: \<open>length xs = length xss\<close>)
  with ys show ?thesis by blast
qed

lemma seq_results_all_Inr:
  assumes "\<And>x. x \<in> set xs \<Longrightarrow> \<exists>ys. f x = Inr ys \<and> (\<forall>y \<in> set ys. P y)"
  shows "\<exists>zs. seq_results (map f xs) = Inr zs \<and> (\<forall>z \<in> set zs. P z)"
  using assms
proof (induction xs)
  case (Cons x xs)
  then obtain ys zs where "f x = Inr ys" "\<forall>y \<in> set ys. P y"
    "seq_results (map f xs) = Inr zs" "\<forall>z \<in> set zs. P z"
    by (metis list.set_intros)
  then show ?case by auto
qed simp

section \<open>Maps ordered by extension\<close>

lemma map_le_Some: "m \<subseteq>\<^sub>m m' \<Longrightarrow> m x = Some y \<Longrightarrow> m' x = Some y"
  by (auto simp: map_le_def dom_def)

lemma map_le_upd_fresh [intro]: "m x = None \<Longrightarrow> m \<subseteq>\<^sub>m m(x \<mapsto> y)"
  by (auto simp: map_le_def)

lemma map_le_dom_mono: "m \<subseteq>\<^sub>m m' \<Longrightarrow> A \<subseteq> dom m \<Longrightarrow> A \<subseteq> dom m'"
  using map_le_implies_dom_le by blast

lemma map_le_upd_le: "m \<subseteq>\<^sub>m m' \<Longrightarrow> m' x = Some y \<Longrightarrow> m(x \<mapsto> y) \<subseteq>\<^sub>m m'"
  by (auto simp: map_le_def)

section \<open>Traversals in the state monad\<close>

text \<open>
  A traversal runs the action on each element in turn, threading the state;
  each element of its result is the action's result on some element at some
  state, and each element's result at some state is in it.
\<close>

lemma traverse_list_mem:
  "x \<in> set xs \<Longrightarrow> \<exists>m. fst (run_state (f x) m) \<in> set (fst (run_state (traverse_list f xs) n))"
proof (induction xs arbitrary: n)
  case (Cons y ys)
  show ?case
  proof (cases "x = y")
    case True
    have "fst (run_state (f y) n) \<in> set (fst (run_state (traverse_list f (y # ys)) n))"
      by (simp split: prod.splits)
    with True show ?thesis by blast
  next
    case False
    with Cons.prems obtain m where
      "fst (run_state (f x) m) \<in> set (fst (run_state (traverse_list f ys) (snd (run_state (f y) n))))"
      using Cons.IH by auto
    then show ?thesis by (auto split: prod.splits)
  qed
qed simp

lemma traverse_list_elem:
  "y \<in> set (fst (run_state (traverse_list f xs) n)) \<Longrightarrow> \<exists>x m. y = fst (run_state (f x) m)"
proof (induction xs arbitrary: n)
  case (Cons x xs)
  obtain z m where z: "run_state (f x) n = (z, m)" by fastforce
  obtain zs k where zs: "run_state (traverse_list f xs) m = (zs, k)" by fastforce
  from Cons.prems z zs have "y = z \<or> y \<in> set zs" by simp
  then show ?case
  proof
    assume "y = z" with z show ?thesis by (metis fst_conv)
  next
    assume "y \<in> set zs" with Cons.IH [of m] zs show ?thesis by simp
  qed
qed simp

lemma traverse_list_Cons_fst:
  "fst (run_state (traverse_list f (x # xs)) n) =
     fst (run_state (f x) n) # fst (run_state (traverse_list f xs) (snd (run_state (f x) n)))"
  by (simp split: prod.splits)

lemma length_traverse_list:
  "length (fst (run_state (traverse_list f xs) n)) = length xs"
proof (induction xs arbitrary: n)
  case (Cons x xs)
  obtain y m where "run_state (f x) n = (y, m)" by fastforce
  moreover obtain ys k where "run_state (traverse_list f xs) m = (ys, k)" by fastforce
  ultimately show ?case using Cons.IH [of m] by simp
qed simp

text \<open>Removing a set from a set with a fresh element.\<close>

lemma insert_Diff_fresh: "a \<notin> B \<Longrightarrow> insert a A - B = insert a (A - (B \<union> {a}))"
  by blast

end
