(* ===== verification/Datalog_Term.thy ===== *)
theory Datalog_Term
  imports Prelude
begin

text \<open>
  The unit of unification of the query engine (spec section 4.1; the engine is
  the datalogia library, which the repository imports and which is modelled
  from the spec). A scalar is a string, an integer, the positive infinity that
  marks a delegation without expiry, or a content link. A link names either a
  delegation (by its content identifier) or the capability at a position of a
  delegation. A term is a logic variable, identified by a number, or a
  constant scalar. A binding assigns scalars to some variables; bindings grow
  by unification and are ordered by map extension.

  Variables are allocated by \<open>fresh\<close>, which threads a counter through the
  state monad: every call of \<open>DB.string()\<close>, \<open>DB.link()\<close> or
  \<open>DB.integer()\<close> in the source is one \<open>fresh\<close>.
\<close>

datatype link = Ucan cid | CapOf cid nat

datatype scalar = Str string | Num int | Inf | Lnk link

datatype dl_term = Var nat | Const scalar

type_synonym binding = "nat \<rightharpoonup> scalar"

fun fv_term :: "dl_term \<Rightarrow> nat set" where
  "fv_term (Var v) = {v}"
| "fv_term (Const c) = {}"

text \<open>The term with the binding applied: a bound variable becomes its value.\<close>

fun resolve :: "binding \<Rightarrow> dl_term \<Rightarrow> dl_term" where
  "resolve b (Var v) = (case b v of None \<Rightarrow> Var v | Some s \<Rightarrow> Const s)"
| "resolve b (Const c) = Const c"

text \<open>
  Unifying a term with a scalar read from a fact: a constant must be equal, a
  bound variable must hold that scalar, an unbound variable is bound to it.
  A conflict discards the binding (\<open>None\<close>).
\<close>

fun unify :: "dl_term \<Rightarrow> scalar \<Rightarrow> binding \<Rightarrow> binding option" where
  "unify (Const c) s b = (if c = s then Some b else None)"
| "unify (Var v) s b =
     (case b v of
        None \<Rightarrow> Some (b(v \<mapsto> s))
      | Some s' \<Rightarrow> if s' = s then Some b else None)"

definition fresh :: "(nat, dl_term) state" where
  "fresh = do {
     n \<leftarrow> State_Monad.get;
     State_Monad.set (Suc n);
     State_Monad.return (Var n)
   }"

text \<open>
  A selector field with a default: \<open>{ audience = DB.string() }\<close> allocates
  a variable only when the caller passed nothing.
\<close>

definition opt_term :: "dl_term option \<Rightarrow> (nat, dl_term) state" where
  "opt_term t = (case t of Some x \<Rightarrow> State_Monad.return x | None \<Rightarrow> fresh)"

section \<open>Resolution and unification\<close>

lemma run_fresh [simp, builder_simps]: "run_state fresh n = (Var n, Suc n)"
  by (simp add: fresh_def)

lemma run_opt_term [builder_simps]:
  "run_state (opt_term (Some x)) n = (x, n)"
  "run_state (opt_term None) n = (Var n, Suc n)"
  by (simp_all add: opt_term_def)

lemma resolve_Const_iff:
  "resolve b t = Const s \<longleftrightarrow> (t = Const s \<or> (\<exists>v. t = Var v \<and> b v = Some s))"
  by (cases t) (auto split: option.splits)

lemma resolve_mono:
  "b \<subseteq>\<^sub>m b' \<Longrightarrow> resolve b t = Const s \<Longrightarrow> resolve b' t = Const s"
  by (auto simp: resolve_Const_iff dest: map_le_Some)

lemma resolve_bound:
  "fv_term t \<subseteq> dom b \<Longrightarrow> \<exists>s. resolve b t = Const s"
  by (cases t) auto

lemma resolve_agree:
  "fv_term t \<subseteq> dom b \<Longrightarrow> b \<subseteq>\<^sub>m b' \<Longrightarrow> resolve b' t = resolve b t"
  by (cases t) (auto simp: map_le_def split: option.splits)

lemma unify_sound:
  "unify t s b = Some b' \<Longrightarrow> b \<subseteq>\<^sub>m b' \<and> resolve b' t = Const s"
  by (cases t) (auto split: option.splits if_splits)

lemma unify_dom:
  "unify t s b = Some b' \<Longrightarrow> dom b' = dom b \<union> fv_term t"
  by (cases t) (auto split: option.splits if_splits)

lemma unify_complete:
  assumes "b \<subseteq>\<^sub>m b'" and "resolve b' t = Const s"
  shows "\<exists>b1. unify t s b = Some b1 \<and> b1 \<subseteq>\<^sub>m b'"
proof (cases t)
  case (Var v)
  with assms(2) have bv: "b' v = Some s" by (auto split: option.splits)
  show ?thesis
  proof (cases "b v")
    case None
    with Var assms(1) bv show ?thesis by (auto intro: map_le_upd_le)
  next
    case (Some s')
    with assms(1) bv have "s' = s" by (auto dest: map_le_Some)
    with Var Some assms(1) show ?thesis by simp
  qed
next
  case (Const c)
  with assms show ?thesis by simp
qed

end
