(* ===== verification/Fact_Index.thy ===== *)
theory Fact_Index
  imports Datalog_Term
begin

text \<open>
  The fact index (spec section 4.2). A fact is an (entity, attribute, value)
  triple; the index maps each attribute to the list of (entity, value) pairs
  stored under it, in insertion order and without repetition. It is built once
  per query session by inserting the facts one by one (\<open>build_index\<close>);
  lookup by attribute is the one mandatory access path.

  \<open>index_facts\<close> abstracts an index to the set of facts it holds. The lemmas
  show that insertion refines set insertion, that building yields exactly the
  facts given, that lookup returns the facts of the attribute in first
  occurrence order, and that rebuilding with facts already present changes
  nothing (the idempotence the spec requires of projection).
\<close>

type_synonym fact = "scalar \<times> string \<times> scalar"

type_synonym index = "string \<rightharpoonup> (scalar \<times> scalar) list"

definition index_insert :: "fact \<Rightarrow> index \<Rightarrow> index" where
  "index_insert f idx =
     (case f of (e, a, v) \<Rightarrow>
        (case idx a of
           None \<Rightarrow> idx(a \<mapsto> [(e, v)])
         | Some xs \<Rightarrow> if (e, v) \<in> set xs then idx else idx(a \<mapsto> xs @ [(e, v)])))"

definition build_index :: "fact list \<Rightarrow> index" where
  "build_index fs = fold index_insert fs Map.empty"

definition index_lookup :: "index \<Rightarrow> string \<Rightarrow> (scalar \<times> scalar) list" where
  "index_lookup idx a = (case idx a of None \<Rightarrow> [] | Some xs \<Rightarrow> xs)"

definition index_facts :: "index \<Rightarrow> fact set" where
  "index_facts idx = {(e, a, v). (e, v) \<in> set (index_lookup idx a)}"

definition index_wf :: "index \<Rightarrow> bool" where
  "index_wf idx \<longleftrightarrow> (\<forall>a xs. idx a = Some xs \<longrightarrow> distinct xs)"

text \<open>The facts of one attribute, in the order of the fact list.\<close>

definition facts_of_attr :: "fact list \<Rightarrow> string \<Rightarrow> (scalar \<times> scalar) list" where
  "facts_of_attr fs a = [(e, v). (e, a', v) \<leftarrow> fs, a' = a]"

section \<open>Insertion\<close>

lemma index_lookup_insert:
  "index_lookup (index_insert (e, a', v) idx) a =
     (if a' = a then union_list (index_lookup idx a) [(e, v)] else index_lookup idx a)"
  by (auto simp: index_insert_def index_lookup_def split: option.splits)

lemma index_insert_wf: "index_wf idx \<Longrightarrow> index_wf (index_insert f idx)"
  by (auto simp: index_wf_def index_insert_def split: option.splits prod.splits)

lemma mem_index_facts [simp]: "(e, a, v) \<in> index_facts idx \<longleftrightarrow> (e, v) \<in> set (index_lookup idx a)"
  by (simp add: index_facts_def)

lemma index_facts_empty [simp]: "index_facts Map.empty = {}"
  by (simp add: index_facts_def index_lookup_def)

lemma index_insert_facts: "index_facts (index_insert f idx) = insert f (index_facts idx)"
  by (cases f) (auto simp: index_facts_def index_lookup_insert split: if_splits)

lemma index_insert_present: "f \<in> index_facts idx \<Longrightarrow> index_insert f idx = idx"
  by (auto simp: index_facts_def index_insert_def index_lookup_def split: option.splits)

section \<open>Building\<close>

lemma fold_insert_lookup:
  "index_lookup (fold index_insert fs idx) a = union_list (index_lookup idx a) (facts_of_attr fs a)"
proof (induction fs arbitrary: idx)
  case Nil
  then show ?case by (simp add: facts_of_attr_def)
next
  case (Cons f fs)
  obtain e a' v where f: "f = (e, a', v)" by (cases f)
  have "facts_of_attr (f # fs) a = (if a' = a then [(e, v)] else []) @ facts_of_attr fs a"
    by (simp add: facts_of_attr_def f)
  with Cons.IH show ?case
    by (simp add: f index_lookup_insert union_list_append)
qed

theorem index_lookup_build:
  "index_lookup (build_index fs) a = union_list [] (facts_of_attr fs a)"
  using fold_insert_lookup [of fs Map.empty a]
  by (simp add: build_index_def index_lookup_def)

lemma fold_insert_facts:
  "index_facts (fold index_insert fs idx) = index_facts idx \<union> set fs"
  by (induction fs arbitrary: idx) (auto simp: index_insert_facts)

theorem build_index_facts: "index_facts (build_index fs) = set fs"
  using fold_insert_facts [of fs Map.empty] by (simp add: build_index_def)

lemma build_index_wf: "index_wf (build_index fs)"
proof -
  have "index_wf idx \<Longrightarrow> index_wf (fold index_insert fs idx)" for idx
    by (induction fs arbitrary: idx) (auto intro: index_insert_wf)
  moreover have "index_wf Map.empty" by (simp add: index_wf_def)
  ultimately show ?thesis by (simp add: build_index_def)
qed

lemma fold_insert_present:
  "set fs \<subseteq> index_facts idx \<Longrightarrow> fold index_insert fs idx = idx"
  by (induction fs) (auto simp: index_insert_present)

theorem build_index_redundant:
  "set gs \<subseteq> set fs \<Longrightarrow> build_index (fs @ gs) = build_index fs"
  unfolding build_index_def
  by (simp add: fold_insert_present build_index_facts [unfolded build_index_def])

lemma index_lookup_facts [index_simps]:
  "(e, v) \<in> set (index_lookup (build_index fs) a) \<longleftrightarrow> (e, a, v) \<in> set fs"
  by (simp only: mem_index_facts [symmetric] build_index_facts)

end
