(* ===== verification/Glob.thy ===== *)
theory Glob
  imports Prelude
begin

text \<open>
  Glob text constraints (spec section 4.4, \<open>Glob(term, pattern)\<close>): the
  character \<open>*\<close> stands for any run of characters, every other character for
  itself. \<open>glob_match p t\<close> is the executable matcher of the engine;
  \<open>glob_lang p\<close> is the set of texts a pattern denotes, and the two agree
  (\<open>glob_match_lang\<close>). The lemmas below give the forms the resolver uses:
  \<open>*\<close> alone, a prefix followed by \<open>*\<close> (\<open>did:mailto:*\<close>, \<open>did:key:*\<close>) and
  a pattern without wildcard, which is equality.
\<close>

fun glob_match :: "string \<Rightarrow> string \<Rightarrow> bool" where
  "glob_match [] [] = True"
| "glob_match [] (d # t) = False"
| "glob_match (c # p) [] = (c = CHR ''*'' \<and> glob_match p [])"
| "glob_match (c # p) (d # t) =
     (if c = CHR ''*'' then glob_match p (d # t) \<or> glob_match (c # p) t
      else c = d \<and> glob_match p t)"

fun glob_lang :: "string \<Rightarrow> string set" where
  "glob_lang [] = {[]}"
| "glob_lang (c # p) =
     (if c = CHR ''*'' then {u @ w | u w. w \<in> glob_lang p}
      else {c # w | w. w \<in> glob_lang p})"

section \<open>The matcher against the language\<close>

lemma glob_match_star_iff:
  "glob_match (CHR ''*'' # p) t \<longleftrightarrow> (\<exists>u w. t = u @ w \<and> glob_match p w)"
proof (induction t)
  case Nil
  then show ?case by simp
next
  case (Cons d t)
  have "glob_match (CHR ''*'' # p) (d # t) \<longleftrightarrow>
        glob_match p (d # t) \<or> (\<exists>u w. t = u @ w \<and> glob_match p w)"
    using Cons.IH by simp
  also have "\<dots> \<longleftrightarrow> (\<exists>u w. d # t = u @ w \<and> glob_match p w)"
  proof
    assume "glob_match p (d # t) \<or> (\<exists>u w. t = u @ w \<and> glob_match p w)"
    then show "\<exists>u w. d # t = u @ w \<and> glob_match p w"
      by (metis append_Cons append_Nil)
  next
    assume "\<exists>u w. d # t = u @ w \<and> glob_match p w"
    then obtain u w where "d # t = u @ w" "glob_match p w" by blast
    then show "glob_match p (d # t) \<or> (\<exists>u w. t = u @ w \<and> glob_match p w)"
      by (cases u) auto
  qed
  finally show ?case .
qed

lemma glob_match_char_iff:
  "c \<noteq> CHR ''*'' \<Longrightarrow> glob_match (c # p) t \<longleftrightarrow> (\<exists>w. t = c # w \<and> glob_match p w)"
  by (cases t) auto

theorem glob_match_lang: "glob_match p t \<longleftrightarrow> t \<in> glob_lang p"
proof (induction p arbitrary: t)
  case Nil
  then show ?case by (cases t) auto
next
  case (Cons c p)
  show ?case
  proof (cases "c = CHR ''*''")
    case True
    then show ?thesis using Cons.IH by (simp add: glob_match_star_iff)
  next
    case False
    then show ?thesis using Cons.IH by (simp add: glob_match_char_iff)
  qed
qed

section \<open>The patterns the resolver uses\<close>

lemma glob_match_any [simp]: "glob_match ''*'' t"
  unfolding glob_match_star_iff by (intro exI[of _ t] exI[of _ "[]"]) simp

lemma glob_match_literal:
  "CHR ''*'' \<notin> set p \<Longrightarrow> glob_match p t \<longleftrightarrow> t = p"
proof (induction p arbitrary: t)
  case Nil
  then show ?case by (cases t) auto
next
  case (Cons c p)
  then have "c \<noteq> CHR ''*''" and "CHR ''*'' \<notin> set p" by auto
  with Cons.IH show ?case by (simp add: glob_match_char_iff)
qed

lemma glob_match_prefix:
  "CHR ''*'' \<notin> set q \<Longrightarrow> glob_match (q @ ''*'') t \<longleftrightarrow> (\<exists>w. t = q @ w)"
proof (induction q arbitrary: t)
  case Nil
  then show ?case by simp
next
  case (Cons c q)
  then have "c \<noteq> CHR ''*''" and "CHR ''*'' \<notin> set q" by auto
  with Cons.IH show ?case by (simp add: glob_match_char_iff) blast
qed

lemma glob_lang_refl: "p \<in> glob_lang p"
proof (induction p)
  case (Cons c p)
  show ?case
  proof (cases "c = CHR ''*''")
    case True
    have "c # p = [c] @ p \<and> p \<in> glob_lang p" using Cons.IH by simp
    then have "\<exists>u w. c # p = u @ w \<and> w \<in> glob_lang p" by blast
    with True show ?thesis by simp
  qed (use Cons.IH in auto)
qed simp

lemma glob_match_refl [simp]: "glob_match p p"
  unfolding glob_match_lang by (rule glob_lang_refl)

end
