(* ===== verification/Clause_Eval.thy ===== *)
theory Clause_Eval
  imports Fact_Index Glob
begin

text \<open>
  The clause evaluator (spec section 4.4), the Datalog engine proper. A clause
  is a tree of matches against the fact index, conjunctions, disjunctions,
  negations and constraints (glob, equality, and the \<open>\<ge>\<close> comparison used
  for expirations). \<open>eval idx c b\<close> returns the bindings that extend \<open>b\<close>
  and satisfy \<open>c\<close>, or a query-construction error when a negation, a glob or
  a comparison meets a variable that nothing has bound.

  \<open>sat idx c b\<close> is the declarative meaning of a clause under a binding. The
  main theorem \<open>eval_correct\<close> says the evaluator refines it: every returned
  binding extends the input and satisfies the clause (soundness), and every
  extension of the input that satisfies the clause extends some returned
  binding (completeness). \<open>eval_no_error\<close> gives a static condition
  (\<open>safe\<close>) under which evaluation never fails.
\<close>

datatype error = UnboundVariable nat

datatype clause =
    Match dl_term string dl_term
  | And clause clause
  | Or clause clause
  | Not clause
  | Glob dl_term dl_term
  | Is dl_term dl_term
  | Ge dl_term dl_term

fun fv_list_term :: "dl_term \<Rightarrow> nat list" where
  "fv_list_term (Var v) = [v]"
| "fv_list_term (Const c) = []"

fun fv_list :: "clause \<Rightarrow> nat list" where
  "fv_list (Match e a v) = fv_list_term e @ fv_list_term v"
| "fv_list (And x y) = fv_list x @ fv_list y"
| "fv_list (Or x y) = fv_list x @ fv_list y"
| "fv_list (Not x) = fv_list x"
| "fv_list (Glob t p) = fv_list_term t @ fv_list_term p"
| "fv_list (Is t u) = fv_list_term t @ fv_list_term u"
| "fv_list (Ge t u) = fv_list_term t @ fv_list_term u"

definition fv :: "clause \<Rightarrow> nat set" where
  "fv c = set (fv_list c)"

text \<open>The first variable of a clause the binding leaves unbound, if any.\<close>

definition unbound :: "binding \<Rightarrow> clause \<Rightarrow> nat option" where
  "unbound b c = find (\<lambda>v. b v = None) (fv_list c)"

text \<open>
  Scalar comparisons: a glob applies to strings only; \<open>\<ge>\<close> compares
  integers, and the infinity of a non-expiring delegation is above every
  integer and itself.
\<close>

fun glob_scalar :: "scalar \<Rightarrow> scalar \<Rightarrow> bool" where
  "glob_scalar (Str q) (Str s) = glob_match q s"
| "glob_scalar _ _ = False"

fun scalar_ge :: "scalar \<Rightarrow> scalar \<Rightarrow> bool" where
  "scalar_ge (Num a) (Num t) = (t \<le> a)"
| "scalar_ge Inf (Num t) = True"
| "scalar_ge Inf Inf = True"
| "scalar_ge _ _ = False"

text \<open>
  Lookup with the bound positions of a match (spec 4.2): the pairs of the
  attribute whose entity and value agree with the positions that are
  constants after the binding is applied.
\<close>

fun fits :: "dl_term \<Rightarrow> scalar \<Rightarrow> bool" where
  "fits (Const c) s = (c = s)"
| "fits (Var v) s = True"

definition index_select :: "index \<Rightarrow> string \<Rightarrow> dl_term \<Rightarrow> dl_term \<Rightarrow> (scalar \<times> scalar) list" where
  "index_select idx a e v = filter (\<lambda>(e', v'). fits e e' \<and> fits v v') (index_lookup idx a)"

definition match_fact :: "dl_term \<Rightarrow> dl_term \<Rightarrow> binding \<Rightarrow> scalar \<times> scalar \<Rightarrow> binding option" where
  "match_fact e v b ev = (case ev of (e', v') \<Rightarrow> Option.bind (unify e e' b) (unify v v'))"

fun eval :: "index \<Rightarrow> clause \<Rightarrow> binding \<Rightarrow> error + binding list" where
  "eval idx (Match e a v) b =
     Inr (List.map_filter (match_fact e v b) (index_select idx a (resolve b e) (resolve b v)))"
| "eval idx (And x y) b =
     (case eval idx x b of
        Inl err \<Rightarrow> Inl err
      | Inr bs \<Rightarrow> seq_results (map (eval idx y) bs))"
| "eval idx (Or x y) b =
     (case eval idx x b of
        Inl err \<Rightarrow> Inl err
      | Inr bs \<Rightarrow> (case eval idx y b of Inl err \<Rightarrow> Inl err | Inr cs \<Rightarrow> Inr (bs @ cs)))"
| "eval idx (Not x) b =
     (case unbound b x of
        Some v \<Rightarrow> Inl (UnboundVariable v)
      | None \<Rightarrow> (case eval idx x b of
                   Inl err \<Rightarrow> Inl err
                 | Inr [] \<Rightarrow> Inr [b]
                 | Inr (_ # _) \<Rightarrow> Inr []))"
| "eval idx (Glob t p) b =
     (case (resolve b t, resolve b p) of
        (Var v, _) \<Rightarrow> Inl (UnboundVariable v)
      | (_, Var v) \<Rightarrow> Inl (UnboundVariable v)
      | (Const s, Const q) \<Rightarrow> Inr (if glob_scalar q s then [b] else []))"
| "eval idx (Is t u) b =
     (case (resolve b t, resolve b u) of
        (Const s, Const s') \<Rightarrow> Inr (if s = s' then [b] else [])
      | (Var v, Const s) \<Rightarrow> Inr [b(v \<mapsto> s)]
      | (Const s, Var v) \<Rightarrow> Inr [b(v \<mapsto> s)]
      | (Var v, Var _) \<Rightarrow> Inl (UnboundVariable v))"
| "eval idx (Ge t u) b =
     (case (resolve b t, resolve b u) of
        (Var v, _) \<Rightarrow> Inl (UnboundVariable v)
      | (_, Var v) \<Rightarrow> Inl (UnboundVariable v)
      | (Const s, Const s') \<Rightarrow> Inr (if scalar_ge s s' then [b] else []))"

text \<open>A list of clauses (a query's \<open>where\<close>) is their conjunction.\<close>

fun and_all :: "clause \<Rightarrow> clause list \<Rightarrow> clause" where
  "and_all c [] = c"
| "and_all c (d # ds) = and_all (And c d) ds"

section \<open>Declarative semantics\<close>

fun sat :: "index \<Rightarrow> clause \<Rightarrow> binding \<Rightarrow> bool" where
  "sat idx (Match e a v) b \<longleftrightarrow>
     (\<exists>(e', v') \<in> set (index_lookup idx a). resolve b e = Const e' \<and> resolve b v = Const v')"
| "sat idx (And x y) b \<longleftrightarrow> sat idx x b \<and> sat idx y b"
| "sat idx (Or x y) b \<longleftrightarrow> sat idx x b \<or> sat idx y b"
| "sat idx (Not x) b \<longleftrightarrow> fv x \<subseteq> dom b \<and> \<not> sat idx x b"
| "sat idx (Glob t p) b \<longleftrightarrow>
     (\<exists>s q. resolve b t = Const s \<and> resolve b p = Const q \<and> glob_scalar q s)"
| "sat idx (Is t u) b \<longleftrightarrow> (\<exists>s. resolve b t = Const s \<and> resolve b u = Const s)"
| "sat idx (Ge t u) b \<longleftrightarrow>
     (\<exists>s s'. resolve b t = Const s \<and> resolve b u = Const s' \<and> scalar_ge s s')"

definition eval_ok :: "index \<Rightarrow> clause \<Rightarrow> binding \<Rightarrow> binding list \<Rightarrow> bool" where
  "eval_ok idx c b bs \<longleftrightarrow>
     (\<forall>b' \<in> set bs. b \<subseteq>\<^sub>m b' \<and> sat idx c b') \<and>
     (\<forall>b'. b \<subseteq>\<^sub>m b' \<longrightarrow> sat idx c b' \<longrightarrow> (\<exists>b1 \<in> set bs. b1 \<subseteq>\<^sub>m b'))"

text \<open>
  Static safety: the variables a clause is certain to bind, and whether every
  negation, glob and comparison only reads variables bound before it.
\<close>

fun bound_vars :: "clause \<Rightarrow> nat set" where
  "bound_vars (Match e a v) = fv_term e \<union> fv_term v"
| "bound_vars (And x y) = bound_vars x \<union> bound_vars y"
| "bound_vars (Or x y) = bound_vars x \<inter> bound_vars y"
| "bound_vars (Not x) = {}"
| "bound_vars (Glob t p) = {}"
| "bound_vars (Is t u) = fv_term t \<union> fv_term u"
| "bound_vars (Ge t u) = {}"

fun safe :: "nat set \<Rightarrow> clause \<Rightarrow> bool" where
  "safe B (Match e a v) = True"
| "safe B (And x y) = (safe B x \<and> safe (B \<union> bound_vars x) y)"
| "safe B (Or x y) = (safe B x \<and> safe B y)"
| "safe B (Not x) = (fv x \<subseteq> B \<and> safe B x)"
| "safe B (Glob t p) = (fv_term t \<union> fv_term p \<subseteq> B)"
| "safe B (Is t u) = (fv_term t \<subseteq> B \<or> fv_term u \<subseteq> B)"
| "safe B (Ge t u) = (fv_term t \<union> fv_term u \<subseteq> B)"


section \<open>Free variables and the semantics under extension\<close>

lemma fv_term_list [simp]: "set (fv_list_term t) = fv_term t"
  by (cases t) auto

lemma fv_simps [simp]:
  "fv (Match e a v) = fv_term e \<union> fv_term v"
  "fv (And x y) = fv x \<union> fv y"
  "fv (Or x y) = fv x \<union> fv y"
  "fv (Not x) = fv x"
  "fv (Glob t p) = fv_term t \<union> fv_term p"
  "fv (Is t u) = fv_term t \<union> fv_term u"
  "fv (Ge t u) = fv_term t \<union> fv_term u"
  by (simp_all add: fv_def)

lemma unbound_None_iff: "unbound b c = None \<longleftrightarrow> fv c \<subseteq> dom b"
  by (auto simp: unbound_def fv_def find_None_iff)

lemma resolve_agree2:
  "fv_term t \<union> fv_term u \<subseteq> dom b \<Longrightarrow> b \<subseteq>\<^sub>m b' \<Longrightarrow>
   resolve b' t = resolve b t \<and> resolve b' u = resolve b u"
  by (simp add: resolve_agree)

lemma sat_cong:
  "fv c \<subseteq> dom b \<Longrightarrow> b \<subseteq>\<^sub>m b' \<Longrightarrow> sat idx c b' = sat idx c b"
proof (induction c)
  case (Match e a v)
  then show ?case using resolve_agree2 [of e v b b'] by simp
next
  case (Not x)
  then have "fv x \<subseteq> dom b'" using map_le_dom_mono [of b b' "fv x"] by simp
  with Not show ?case by simp
next
  case (Glob t p)
  then show ?case using resolve_agree2 [of t p b b'] by simp
next
  case (Is t u)
  then show ?case using resolve_agree2 [of t u b b'] by simp
next
  case (Ge t u)
  then show ?case using resolve_agree2 [of t u b b'] by simp
qed simp_all

lemma sat_mono: "sat idx c b \<Longrightarrow> b \<subseteq>\<^sub>m b' \<Longrightarrow> sat idx c b'"
proof (induction c)
  case (Match e a v)
  then obtain e' v' where "(e', v') \<in> set (index_lookup idx a)"
    "resolve b e = Const e'" "resolve b v = Const v'" by auto
  with Match.prems(2) show ?case by (auto dest: resolve_mono)
next
  case (Not x)
  then have "fv x \<subseteq> dom b'" using map_le_dom_mono [of b b' "fv x"] by simp
  with Not sat_cong [of x b b' idx] show ?case by simp
next
  case (Glob t p)
  then obtain s q where "resolve b t = Const s" "resolve b p = Const q" "glob_scalar q s" by auto
  with Glob.prems(2) show ?case by (auto dest: resolve_mono)
next
  case (Is t u)
  then obtain s where "resolve b t = Const s" "resolve b u = Const s" by auto
  with Is.prems(2) show ?case by (auto dest: resolve_mono)
next
  case (Ge t u)
  then obtain s s' where "resolve b t = Const s" "resolve b u = Const s'" "scalar_ge s s'" by auto
  with Ge.prems(2) show ?case by (auto dest: resolve_mono)
qed auto

lemma match_fact_fits:
  assumes "match_fact e v b (e', v') = Some b'"
  shows "fits (resolve b e) e' \<and> fits (resolve b v) v'"
proof -
  from assms obtain b1 where u1: "unify e e' b = Some b1" and u2: "unify v v' b1 = Some b'"
    by (auto simp: match_fact_def split: Option.bind_splits)
  from u1 have b1: "b \<subseteq>\<^sub>m b1" "resolve b1 e = Const e'" by (auto dest: unify_sound)
  from u2 have b2: "b1 \<subseteq>\<^sub>m b'" "resolve b' v = Const v'" by (auto dest: unify_sound)
  have "fits (resolve b e) e'"
    using b1 resolve_mono [of b b1 e] by (cases "resolve b e") auto
  moreover have "fits (resolve b v) v'"
    using b1 b2 resolve_mono [of b b' v] map_le_trans by (cases "resolve b v") fastforce+
  ultimately show ?thesis ..
qed

lemma index_select_filter:
  "List.map_filter (match_fact e v b) (index_select idx a (resolve b e) (resolve b v)) =
   List.map_filter (match_fact e v b) (index_lookup idx a)"
  unfolding index_select_def
  by (rule map_filter_filter_irrelevant) (auto dest: match_fact_fits)

lemma eval_okI:
  assumes "\<And>b'. b' \<in> set bs \<Longrightarrow> b \<subseteq>\<^sub>m b' \<and> sat idx c b'"
    and "\<And>b'. b \<subseteq>\<^sub>m b' \<Longrightarrow> sat idx c b' \<Longrightarrow> \<exists>b1 \<in> set bs. b1 \<subseteq>\<^sub>m b'"
  shows "eval_ok idx c b bs"
  using assms by (auto simp: eval_ok_def)

lemma eval_ok_Match:
  "eval_ok idx (Match e a v) b (List.map_filter (match_fact e v b) (index_lookup idx a))"
proof (rule eval_okI)
  fix b' assume "b' \<in> set (List.map_filter (match_fact e v b) (index_lookup idx a))"
  then obtain e' v' b1 where ev: "(e', v') \<in> set (index_lookup idx a)"
    and u1: "unify e e' b = Some b1" and u2: "unify v v' b1 = Some b'"
    by (auto simp: match_fact_def split: Option.bind_splits)
  from u1 u2 have "b \<subseteq>\<^sub>m b1" "b1 \<subseteq>\<^sub>m b'" "resolve b1 e = Const e'" "resolve b' v = Const v'"
    by (auto dest: unify_sound)
  with ev show "b \<subseteq>\<^sub>m b' \<and> sat idx (Match e a v) b'"
    by (auto intro: map_le_trans dest: resolve_mono)
next
  fix b' assume le: "b \<subseteq>\<^sub>m b'" and "sat idx (Match e a v) b'"
  then obtain e' v' where ev: "(e', v') \<in> set (index_lookup idx a)"
    and r: "resolve b' e = Const e'" "resolve b' v = Const v'"
    by auto
  from unify_complete [OF le r(1)] obtain b1 where u1: "unify e e' b = Some b1" "b1 \<subseteq>\<^sub>m b'"
    by blast
  from unify_complete [OF u1(2) r(2)] obtain b2 where u2: "unify v v' b1 = Some b2" "b2 \<subseteq>\<^sub>m b'"
    by blast
  from u1 u2 have "match_fact e v b (e', v') = Some b2" by (simp add: match_fact_def)
  with ev have "b2 \<in> set (List.map_filter (match_fact e v b) (index_lookup idx a))"
    by (simp only: mem_map_filter) blast
  with u2(2) show "\<exists>b1 \<in> set (List.map_filter (match_fact e v b) (index_lookup idx a)). b1 \<subseteq>\<^sub>m b'"
    by blast
qed

section \<open>The cases of the evaluator\<close>

lemma resolve_Var_iff: "resolve b t = Var v \<longleftrightarrow> t = Var v \<and> b v = None"
  by (cases t) (auto split: option.splits)

lemma eval_ok_And:
  assumes x: "eval_ok idx x b bs"
    and y: "\<And>b1 cs. b1 \<in> set bs \<Longrightarrow> eval idx y b1 = Inr cs \<Longrightarrow> eval_ok idx y b1 cs"
    and r: "seq_results (map (eval idx y) bs) = Inr zs"
  shows "eval_ok idx (And x y) b zs"
proof (rule eval_okI)
  fix b' assume "b' \<in> set zs"
  then obtain b1 cs where b1: "b1 \<in> set bs" "eval idx y b1 = Inr cs" "b' \<in> set cs"
    using seq_results_map_elem [OF r] by blast
  with x y [OF b1(1,2)] have "b \<subseteq>\<^sub>m b1" "sat idx x b1" "b1 \<subseteq>\<^sub>m b'" "sat idx y b'"
    by (auto simp: eval_ok_def)
  then show "b \<subseteq>\<^sub>m b' \<and> sat idx (And x y) b'"
    by (auto intro: map_le_trans sat_mono)
next
  fix b' assume le: "b \<subseteq>\<^sub>m b'" and s: "sat idx (And x y) b'"
  with x obtain b1 where b1: "b1 \<in> set bs" "b1 \<subseteq>\<^sub>m b'"
    by (auto simp: eval_ok_def)
  then obtain cs where cs: "eval idx y b1 = Inr cs" "set cs \<subseteq> set zs"
    using seq_results_map_Inr_elem [OF r] by blast
  with y [OF b1(1) cs(1)] b1(2) s obtain b2 where "b2 \<in> set cs" "b2 \<subseteq>\<^sub>m b'"
    by (auto simp: eval_ok_def)
  with cs(2) show "\<exists>b2 \<in> set zs. b2 \<subseteq>\<^sub>m b'" by blast
qed

lemma eval_ok_Or:
  "eval_ok idx x b bs \<Longrightarrow> eval_ok idx y b cs \<Longrightarrow> eval_ok idx (Or x y) b (bs @ cs)"
proof (rule eval_okI)
  fix b' assume "b' \<in> set (bs @ cs)" and "eval_ok idx x b bs" and "eval_ok idx y b cs"
  then show "b \<subseteq>\<^sub>m b' \<and> sat idx (Or x y) b'" unfolding eval_ok_def by auto
next
  fix b' assume "b \<subseteq>\<^sub>m b'" "sat idx (Or x y) b'" and "eval_ok idx x b bs" and "eval_ok idx y b cs"
  then show "\<exists>b1 \<in> set (bs @ cs). b1 \<subseteq>\<^sub>m b'" unfolding eval_ok_def by fastforce
qed

lemma eval_ok_Not:
  assumes closed: "fv x \<subseteq> dom b" and x: "eval_ok idx x b cs"
  shows "eval_ok idx (Not x) b (if cs = [] then [b] else [])"
proof (cases "cs = []")
  case True
  have "\<not> sat idx x b"
    using x True by (auto simp: eval_ok_def)
  with True closed show ?thesis
    by (auto simp: eval_ok_def)
next
  case False
  then obtain c1 where "c1 \<in> set cs" by (cases cs) auto
  with x have "b \<subseteq>\<^sub>m c1" "sat idx x c1" by (auto simp: eval_ok_def)
  with closed have sb: "sat idx x b" using sat_cong [of x b c1 idx] by simp
  show ?thesis
  proof (rule eval_okI)
    fix b' assume "b' \<in> set (if cs = [] then [b] else [])"
    with False show "b \<subseteq>\<^sub>m b' \<and> sat idx (Not x) b'" by simp
  next
    fix b' assume "b \<subseteq>\<^sub>m b'" and "sat idx (Not x) b'"
    with sb show "\<exists>b1 \<in> set (if cs = [] then [b] else []). b1 \<subseteq>\<^sub>m b'"
      using sat_mono by fastforce
  qed
qed

text \<open>The constraints that read two bound terms and keep or drop the binding.\<close>

lemma eval_ok_test:
  assumes rt: "resolve b t = Const s" and ru: "resolve b u = Const s'"
    and sem: "\<And>b. sat idx c b \<longleftrightarrow> (\<exists>s s'. resolve b t = Const s \<and> resolve b u = Const s' \<and> P s s')"
  shows "eval_ok idx c b (if P s s' then [b] else [])"
proof (rule eval_okI)
  fix b' assume "b' \<in> set (if P s s' then [b] else [])"
  with rt ru sem show "b \<subseteq>\<^sub>m b' \<and> sat idx c b'" by (auto split: if_splits)
next
  fix b' assume le: "b \<subseteq>\<^sub>m b'" and "sat idx c b'"
  with rt ru sem resolve_mono [OF le] have "P s s'" by fastforce
  with le show "\<exists>b1 \<in> set (if P s s' then [b] else []). b1 \<subseteq>\<^sub>m b'" by simp
qed

lemma eval_ok_bind:
  assumes rt: "resolve b t = Var v" and ru: "resolve b u = Const s"
    and sem: "\<And>b. sat idx c b \<longleftrightarrow> (\<exists>s. resolve b t = Const s \<and> resolve b u = Const s)"
  shows "eval_ok idx c b [b(v \<mapsto> s)]"
proof (rule eval_okI)
  from rt have t: "t = Var v" "b v = None" by (auto simp: resolve_Var_iff)
  fix b' assume "b' \<in> set [b(v \<mapsto> s)]"
  then have "b' = b(v \<mapsto> s)" by simp
  moreover have "resolve (b(v \<mapsto> s)) u = Const s"
    using resolve_mono [OF map_le_upd_fresh [of b v s, OF t(2)] ru] .
  ultimately show "b \<subseteq>\<^sub>m b' \<and> sat idx c b'" using t sem by auto
next
  from rt have t: "t = Var v" "b v = None" by (auto simp: resolve_Var_iff)
  fix b' assume le: "b \<subseteq>\<^sub>m b'" and "sat idx c b'"
  with sem obtain s'' where "resolve b' t = Const s''" "resolve b' u = Const s''" by blast
  with resolve_mono [OF le ru] t have "b' v = Some s"
    by (auto split: option.splits)
  with le show "\<exists>b1 \<in> set [b(v \<mapsto> s)]. b1 \<subseteq>\<^sub>m b'" by (simp add: map_le_upd_le)
qed

section \<open>The evaluator refines the semantics\<close>

theorem eval_correct: "eval idx c b = Inr bs \<Longrightarrow> eval_ok idx c b bs"
proof (induction c arbitrary: b bs)
  case (Match e a v)
  then show ?case using eval_ok_Match [of idx e a v b] by (simp add: index_select_filter)
next
  case (And x y)
  then obtain bs0 where x: "eval idx x b = Inr bs0"
    and r: "seq_results (map (eval idx y) bs0) = Inr bs"
    by (auto split: sum.splits)
  show ?case by (rule eval_ok_And [OF And.IH(1) [OF x] And.IH(2) r])
next
  case (Or x y)
  then obtain bs1 bs2 where "eval idx x b = Inr bs1" "eval idx y b = Inr bs2" "bs = bs1 @ bs2"
    by (auto split: sum.splits)
  with Or.IH show ?case by (simp add: eval_ok_Or)
next
  case (Not x)
  then obtain cs where u: "unbound b x = None" and x: "eval idx x b = Inr cs"
    and bs: "bs = (if cs = [] then [b] else [])"
    by (auto split: option.splits sum.splits list.splits)
  from u have "fv x \<subseteq> dom b" by (simp add: unbound_None_iff)
  with Not.IH [OF x] show ?case unfolding bs by (rule eval_ok_Not [rotated])
next
  case (Glob t p)
  then obtain s q where "resolve b t = Const s" "resolve b p = Const q"
    "bs = (if glob_scalar q s then [b] else [])"
    by (auto split: dl_term.splits)
  then show ?case
    using eval_ok_test [of b t s p q idx "Glob t p" "\<lambda>s q. glob_scalar q s"] by simp
next
  case (Ge t u)
  then obtain s s' where "resolve b t = Const s" "resolve b u = Const s'"
    "bs = (if scalar_ge s s' then [b] else [])"
    by (auto split: dl_term.splits)
  then show ?case
    using eval_ok_test [of b t s u s' idx "Ge t u" scalar_ge] by simp
next
  case (Is t u)
  show ?case
  proof (cases "resolve b t")
    case (Var v)
    with Is obtain s where "resolve b u = Const s" "bs = [b(v \<mapsto> s)]"
      by (auto split: dl_term.splits)
    with Var show ?thesis by (auto intro: eval_ok_bind)
  next
    case (Const s)
    show ?thesis
    proof (cases "resolve b u")
      case (Var v)
      with Is Const have "bs = [b(v \<mapsto> s)]" by simp
      with Var Const show ?thesis
        using eval_ok_bind [of b u v t s idx "Is t u"] by auto
    next
      case (Const s')
      with Is \<open>resolve b t = Const s\<close> have "bs = (if s = s' then [b] else [])" by simp
      with Const \<open>resolve b t = Const s\<close> show ?thesis
        using eval_ok_test [of b t s u s' idx "Is t u" "(=)"] by auto
    qed
  qed
qed

corollary eval_sound:
  "eval idx c b = Inr bs \<Longrightarrow> b' \<in> set bs \<Longrightarrow> b \<subseteq>\<^sub>m b' \<and> sat idx c b'"
  using eval_correct by (auto simp: eval_ok_def)

corollary eval_complete:
  "eval idx c b = Inr bs \<Longrightarrow> b \<subseteq>\<^sub>m b' \<Longrightarrow> sat idx c b' \<Longrightarrow> \<exists>b1 \<in> set bs. b1 \<subseteq>\<^sub>m b'"
  using eval_correct by (auto simp: eval_ok_def)

lemma eval_Not_filters: "eval idx (Not x) b = Inr bs \<Longrightarrow> set bs \<subseteq> {b}"
  by (auto split: option.splits sum.splits list.splits)

section \<open>Safe clauses never fail\<close>

lemma safe_mono: "safe A c \<Longrightarrow> A \<subseteq> B \<Longrightarrow> safe B c"
proof (induction c arbitrary: A B)
  case (And x y)
  then show ?case by (meson Un_mono order_refl safe.simps(2))
qed auto

lemma resolve_Const_dom: "resolve b t = Const s \<Longrightarrow> fv_term t \<subseteq> dom b"
  by (cases t) (auto split: option.splits)

lemma match_fact_dom:
  assumes "match_fact e v b ev = Some b'"
  shows "dom b' = dom b \<union> fv_term e \<union> fv_term v"
proof -
  obtain e' v' where ev: "ev = (e', v')" by (cases ev)
  with assms obtain b1 where u1: "unify e e' b = Some b1" and u2: "unify v v' b1 = Some b'"
    by (auto simp: match_fact_def split: Option.bind_splits)
  from u1 have "dom b1 = dom b \<union> fv_term e" by (rule unify_dom)
  moreover from u2 have "dom b' = dom b1 \<union> fv_term v" by (rule unify_dom)
  ultimately show ?thesis by simp
qed

lemma eval_no_error_Is:
  assumes "fv_term t \<subseteq> dom b \<or> fv_term u \<subseteq> dom b"
  shows "\<exists>bs. eval idx (Is t u) b = Inr bs \<and> (\<forall>b' \<in> set bs. dom b \<union> fv_term t \<union> fv_term u \<subseteq> dom b')"
proof (cases "resolve b t")
  case (Var v)
  with assms obtain s where "resolve b u = Const s" by (auto dest: resolve_bound simp: resolve_Var_iff)
  with Var show ?thesis by (auto simp: resolve_Var_iff dest: resolve_Const_dom)
next
  case (Const s)
  then have t: "fv_term t \<subseteq> dom b" by (rule resolve_Const_dom)
  show ?thesis
  proof (cases "resolve b u")
    case (Var v)
    with Const show ?thesis by (auto simp: resolve_Var_iff dest: resolve_Const_dom)
  next
    case (Const s')
    with \<open>resolve b t = Const s\<close> t show ?thesis by (auto dest: resolve_Const_dom)
  qed
qed

lemma union_inter_left: "A \<union> X \<subseteq> D \<Longrightarrow> A \<union> (X \<inter> Y) \<subseteq> D"
  by blast

lemma union_inter_right: "A \<union> Y \<subseteq> D \<Longrightarrow> A \<union> (X \<inter> Y) \<subseteq> D"
  by blast

lemma union_union_trans: "A \<union> X \<subseteq> B \<Longrightarrow> B \<union> Y \<subseteq> D \<Longrightarrow> A \<union> (X \<union> Y) \<subseteq> D"
  by blast

theorem eval_no_error:
  "safe (dom b) c \<Longrightarrow> \<exists>bs. eval idx c b = Inr bs \<and> (\<forall>b' \<in> set bs. dom b \<union> bound_vars c \<subseteq> dom b')"
proof (induction c arbitrary: b)
  case (Match e a v)
  have "dom b \<union> bound_vars (Match e a v) \<subseteq> dom b'"
    if "b' \<in> set (List.map_filter (match_fact e v b) xs)" for b' xs
  proof -
    from that obtain ev where "match_fact e v b ev = Some b'" by auto
    then have "dom b' = dom b \<union> fv_term e \<union> fv_term v" by (rule match_fact_dom)
    then show ?thesis by (simp add: Un_assoc)
  qed
  then show ?case by simp
next
  case (And x y)
  from And.prems have sx: "safe (dom b) x" and sy: "safe (dom b \<union> bound_vars x) y" by auto
  from And.IH(1) [OF sx] obtain bs where bs: "eval idx x b = Inr bs"
    and dom_bs: "\<forall>b1 \<in> set bs. dom b \<union> bound_vars x \<subseteq> dom b1" by blast
  have step: "\<exists>cs. eval idx y b1 = Inr cs \<and> (\<forall>b' \<in> set cs. dom b \<union> bound_vars (And x y) \<subseteq> dom b')"
    if "b1 \<in> set bs" for b1
  proof -
    from dom_bs that have le: "dom b \<union> bound_vars x \<subseteq> dom b1" by (rule bspec)
    with sy have "safe (dom b1) y" by (rule safe_mono)
    from And.IH(2) [OF this] obtain cs where cs:
      "eval idx y b1 = Inr cs" "\<forall>b' \<in> set cs. dom b1 \<union> bound_vars y \<subseteq> dom b'"
      by blast
    have dcs: "\<forall>b' \<in> set cs. dom b \<union> bound_vars (And x y) \<subseteq> dom b'"
    proof
      fix b' assume "b' \<in> set cs"
      with \<open>\<forall>b' \<in> set cs. dom b1 \<union> bound_vars y \<subseteq> dom b'\<close>
      have "dom b1 \<union> bound_vars y \<subseteq> dom b'" by (rule bspec)
      with le show "dom b \<union> bound_vars (And x y) \<subseteq> dom b'"
        by (simp only: bound_vars.simps) (rule union_union_trans)
    qed
    from cs(1) dcs show ?thesis by (rule exI [of _ cs, OF conjI])
  qed
  from seq_results_all_Inr [of bs "eval idx y" "\<lambda>z. dom b \<union> bound_vars (And x y) \<subseteq> dom z", OF step]
  obtain zs where zs: "seq_results (map (eval idx y) bs) = Inr zs"
    "\<forall>z \<in> set zs. dom b \<union> bound_vars (And x y) \<subseteq> dom z"
    by blast
  from bs zs(1) have "eval idx (And x y) b = Inr zs" by simp
  then show ?case using zs(2) by (rule exI [of _ zs, OF conjI])
next
  case (Or x y)
  from Or.prems have sx: "safe (dom b) x" and sy: "safe (dom b) y" by auto
  from Or.IH(1) [OF sx] obtain bs where bs: "eval idx x b = Inr bs"
    and dbs: "\<forall>b' \<in> set bs. dom b \<union> bound_vars x \<subseteq> dom b'" by blast
  from Or.IH(2) [OF sy] obtain cs where cs: "eval idx y b = Inr cs"
    and dcs: "\<forall>b' \<in> set cs. dom b \<union> bound_vars y \<subseteq> dom b'" by blast
  from bs cs have "eval idx (Or x y) b = Inr (bs @ cs)" by simp
  moreover have "\<forall>b' \<in> set (bs @ cs). dom b \<union> bound_vars (Or x y) \<subseteq> dom b'"
  proof
    fix b' assume "b' \<in> set (bs @ cs)"
    then consider "b' \<in> set bs" | "b' \<in> set cs" by auto
    then show "dom b \<union> bound_vars (Or x y) \<subseteq> dom b'"
    proof cases
      case 1
      with dbs have "dom b \<union> bound_vars x \<subseteq> dom b'" by (rule bspec)
      then show ?thesis by (simp only: bound_vars.simps) (rule union_inter_left)
    next
      case 2
      with dcs have "dom b \<union> bound_vars y \<subseteq> dom b'" by (rule bspec)
      then show ?thesis by (simp only: bound_vars.simps) (rule union_inter_right)
    qed
  qed
  ultimately show ?case by (rule exI [of _ "bs @ cs", OF conjI])
next
  case (Not x)
  then have u: "unbound b x = None" by (simp add: unbound_None_iff)
  from Not.prems have "safe (dom b) x" by simp
  with Not.IH obtain cs where "eval idx x b = Inr cs" by blast
  with u show ?case by (cases cs) auto
next
  case (Glob t p)
  then have "fv_term t \<subseteq> dom b" "fv_term p \<subseteq> dom b" by auto
  then obtain s q where "resolve b t = Const s" "resolve b p = Const q"
    using resolve_bound by blast
  then show ?case by simp
next
  case (Is t u)
  then show ?case using eval_no_error_Is [of t b u idx] by simp
next
  case (Ge t u)
  then have "fv_term t \<subseteq> dom b" "fv_term u \<subseteq> dom b" by auto
  then obtain s s' where "resolve b t = Const s" "resolve b u = Const s'"
    using resolve_bound by blast
  then show ?case by simp
qed

section \<open>Conjunctions of clause lists\<close>

lemma sat_and_all:
  "sat idx (and_all c cs) b \<longleftrightarrow> sat idx c b \<and> (\<forall>d \<in> set cs. sat idx d b)"
  by (induction cs arbitrary: c) auto

lemma safe_and_all:
  "safe B c \<Longrightarrow> (\<forall>d \<in> set cs. safe (B \<union> bound_vars c) d) \<Longrightarrow> safe B (and_all c cs)"
proof (induction cs arbitrary: c)
  case (Cons d ds)
  have "safe B (And c d)" using Cons.prems by simp
  moreover have "\<forall>d' \<in> set ds. safe (B \<union> bound_vars (And c d)) d'"
    using Cons.prems(2) safe_mono by (metis Un_mono bound_vars.simps(2) list.set_intros(2) order_refl Un_upper1)
  ultimately show ?case using Cons.IH by simp
qed simp

end
