(* ===== verification/Projection.thy ===== *)
theory Projection
  imports Fact_Index
begin

text \<open>
  Delegations and their projection into facts (spec sections 3 and 4.3; the
  projector is the repository's agent database module, outside the sources,
  and is modelled from the spec). A delegation is content-addressed: its
  identifier, issuer, audience, ordered capabilities, expiration (\<open>None\<close>
  for none) and the delegations it carries as proofs. A capability is an
  ability, a resource and its \<open>nb\<close> fields.

  \<open>own_facts d\<close> are the facts of one delegation: issuer, audience,
  expiration (infinity when it never expires), one entity per capability
  (identified by the delegation and the capability's position, so projection
  is deterministic) with its ability, resource and \<open>nb\<close> fields, and one
  proof edge per carried proof. \<open>delegation_facts\<close> adds the facts of the
  nested proofs, and \<open>db_index\<close> builds the index of a delegation set
  (\<open>DB.from({ proofs })\<close> in the tests).

  The lemmas characterise each attribute of the projected facts by the
  delegations that produce it, and show that a delegation present both at
  the top level and as a nested proof leaves the index unchanged.
\<close>

record capability =
  can :: ability
  cwith :: string
  nb :: "(string \<times> scalar) list"

datatype delegation =
  Delegation (cid: cid) (issuer: did) (audience: did) (capabilities: "capability list")
    (expiration: "epoch option") (proofs: "delegation list")

fun expiry_scalar :: "epoch option \<Rightarrow> scalar" where
  "expiry_scalar None = Inf"
| "expiry_scalar (Some t) = Num t"

text \<open>The attribute of an \<open>nb\<close> field: \<open>capability/nb/<field>\<close>.\<close>

definition nb_attr :: "string \<Rightarrow> string" where
  "nb_attr f = ''capability/nb/'' @ f"

definition capability_facts :: "cid \<Rightarrow> nat \<Rightarrow> capability \<Rightarrow> fact list" where
  "capability_facts c i k =
     (let e = Lnk (CapOf c i) in
      [(e, ''capability/can'', Str (can k)), (e, ''capability/with'', Str (cwith k))] @
      map (\<lambda>(f, v). (e, nb_attr f, v)) (nb k) @
      [(Lnk (Ucan c), ''ucan/capability'', e)])"

definition own_facts :: "delegation \<Rightarrow> fact list" where
  "own_facts d =
     (let e = Lnk (Ucan (cid d)) in
      [(e, ''ucan/issuer'', Str (issuer d)),
       (e, ''ucan/audience'', Str (audience d)),
       (e, ''ucan/expiration'', expiry_scalar (expiration d))] @
      concat (map (\<lambda>i. capability_facts (cid d) i (capabilities d ! i)) [0..<length (capabilities d)]) @
      map (\<lambda>p. (e, ''ucan/proof'', Lnk (Ucan (cid p)))) (proofs d))"

fun delegation_facts :: "delegation \<Rightarrow> fact list" where
  "delegation_facts (Delegation c iss aud caps exp prfs) =
     own_facts (Delegation c iss aud caps exp prfs) @ concat (map delegation_facts prfs)"

definition project :: "delegation list \<Rightarrow> fact list" where
  "project ds = concat (map delegation_facts ds)"

definition db_index :: "delegation list \<Rightarrow> index" where
  "db_index ds = build_index (project ds)"

text \<open>Every delegation of a set, the nested proofs included.\<close>

fun subdelegations :: "delegation \<Rightarrow> delegation list" where
  "subdelegations (Delegation c iss aud caps exp prfs) =
     Delegation c iss aud caps exp prfs # concat (map subdelegations prfs)"

definition all_delegations :: "delegation list \<Rightarrow> delegation list" where
  "all_delegations ds = concat (map subdelegations ds)"

text \<open>Content addressing: one identifier names one delegation.\<close>

definition cid_wf :: "delegation list \<Rightarrow> bool" where
  "cid_wf ds \<longleftrightarrow>
     (\<forall>d \<in> set (all_delegations ds). \<forall>d' \<in> set (all_delegations ds). cid d = cid d' \<longrightarrow> d = d')"

section \<open>Facts of nested delegations\<close>

lemma mem_delegation_facts:
  "x \<in> set (delegation_facts d) \<longleftrightarrow> (\<exists>d' \<in> set (subdelegations d). x \<in> set (own_facts d'))"
proof (induction d rule: delegation_facts.induct)
  case (1 c iss aud caps exp prfs)
  then show ?case by (simp only: delegation_facts.simps subdelegations.simps) auto
qed

lemma mem_project:
  "x \<in> set (project ds) \<longleftrightarrow> (\<exists>d \<in> set (all_delegations ds). x \<in> set (own_facts d))"
proof -
  have "x \<in> set (project ds) \<longleftrightarrow> (\<exists>d0 \<in> set ds. x \<in> set (delegation_facts d0))"
    by (simp add: project_def)
  also have "\<dots> \<longleftrightarrow> (\<exists>d0 \<in> set ds. \<exists>d \<in> set (subdelegations d0). x \<in> set (own_facts d))"
    by (simp only: mem_delegation_facts)
  also have "\<dots> \<longleftrightarrow> (\<exists>d \<in> set (all_delegations ds). x \<in> set (own_facts d))"
    by (auto simp: all_delegations_def)
  finally show ?thesis .
qed

lemma subdelegations_self: "d \<in> set (subdelegations d)"
  by (cases d) (simp only: subdelegations.simps list.set_intros)

lemma subdelegations_trans:
  "d' \<in> set (subdelegations d) \<Longrightarrow> p \<in> set (proofs d') \<Longrightarrow> p \<in> set (subdelegations d)"
proof (induction d rule: subdelegations.induct)
  case (1 c iss aud caps exp prfs)
  show ?case
  proof (cases "d' = Delegation c iss aud caps exp prfs")
    case True
    with "1.prems"(2) have "p \<in> set prfs" by simp
    then show ?thesis using subdelegations_self [of p] by auto
  next
    case False
    with "1.prems"(1) obtain q where "q \<in> set prfs" "d' \<in> set (subdelegations q)" by auto
    with "1.IH" "1.prems"(2) show ?thesis by auto
  qed
qed

lemma all_delegations_proof:
  "d \<in> set (all_delegations ds) \<Longrightarrow> p \<in> set (proofs d) \<Longrightarrow> p \<in> set (all_delegations ds)"
  unfolding all_delegations_def using subdelegations_trans by auto

section \<open>The facts of one delegation, attribute by attribute\<close>

lemma nb_attr_inject [simp]: "nb_attr f = nb_attr g \<longleftrightarrow> f = g"
  by (simp add: nb_attr_def)

lemma nb_attr_distinct [simp]:
  "nb_attr f \<noteq> ''capability/can''" "nb_attr f \<noteq> ''capability/with''"
  "nb_attr f \<noteq> ''ucan/capability''" "nb_attr f \<noteq> ''ucan/issuer''"
  "nb_attr f \<noteq> ''ucan/audience''" "nb_attr f \<noteq> ''ucan/expiration''"
  "nb_attr f \<noteq> ''ucan/proof''"
  by (simp_all add: nb_attr_def)

lemmas nb_attr_distinct' [simp] = nb_attr_distinct [THEN not_sym]

lemma mem_capability_facts:
  "(e, a, x) \<in> set (capability_facts c i k) \<longleftrightarrow>
     (e = Lnk (CapOf c i) \<and>
        (a = ''capability/can'' \<and> x = Str (can k) \<or>
         a = ''capability/with'' \<and> x = Str (cwith k) \<or>
         (\<exists>f. a = nb_attr f \<and> (f, x) \<in> set (nb k)))) \<or>
     (e = Lnk (Ucan c) \<and> a = ''ucan/capability'' \<and> x = Lnk (CapOf c i))"
  by (auto simp: capability_facts_def Let_def)

lemma mem_own_facts:
  "x \<in> set (own_facts d) \<longleftrightarrow>
     x = (Lnk (Ucan (cid d)), ''ucan/issuer'', Str (issuer d)) \<or>
     x = (Lnk (Ucan (cid d)), ''ucan/audience'', Str (audience d)) \<or>
     x = (Lnk (Ucan (cid d)), ''ucan/expiration'', expiry_scalar (expiration d)) \<or>
     (\<exists>i \<in> {0..<length (capabilities d)}. x \<in> set (capability_facts (cid d) i (capabilities d ! i))) \<or>
     (\<exists>p \<in> set (proofs d). x = (Lnk (Ucan (cid d)), ''ucan/proof'', Lnk (Ucan (cid p))))"
  by (simp add: own_facts_def Let_def image_iff)

lemma own_issuer [simp]:
  "(e, ''ucan/issuer'', x) \<in> set (own_facts d) \<longleftrightarrow> e = Lnk (Ucan (cid d)) \<and> x = Str (issuer d)"
  unfolding mem_own_facts mem_capability_facts by simp

lemma own_audience [simp]:
  "(e, ''ucan/audience'', x) \<in> set (own_facts d) \<longleftrightarrow> e = Lnk (Ucan (cid d)) \<and> x = Str (audience d)"
  unfolding mem_own_facts mem_capability_facts by simp

lemma own_expiration [simp]:
  "(e, ''ucan/expiration'', x) \<in> set (own_facts d) \<longleftrightarrow>
     e = Lnk (Ucan (cid d)) \<and> x = expiry_scalar (expiration d)"
  unfolding mem_own_facts mem_capability_facts by simp

lemma own_proof [simp]:
  "(e, ''ucan/proof'', x) \<in> set (own_facts d) \<longleftrightarrow>
     e = Lnk (Ucan (cid d)) \<and> (\<exists>p \<in> set (proofs d). x = Lnk (Ucan (cid p)))"
  unfolding mem_own_facts mem_capability_facts by auto

lemma own_capability [simp]:
  "(e, ''ucan/capability'', x) \<in> set (own_facts d) \<longleftrightarrow>
     e = Lnk (Ucan (cid d)) \<and> (\<exists>i < length (capabilities d). x = Lnk (CapOf (cid d) i))"
  unfolding mem_own_facts mem_capability_facts by auto

lemma own_can [simp]:
  "(e, ''capability/can'', x) \<in> set (own_facts d) \<longleftrightarrow>
     (\<exists>i < length (capabilities d). e = Lnk (CapOf (cid d) i) \<and> x = Str (can (capabilities d ! i)))"
  unfolding mem_own_facts mem_capability_facts by auto

lemma own_with [simp]:
  "(e, ''capability/with'', x) \<in> set (own_facts d) \<longleftrightarrow>
     (\<exists>i < length (capabilities d). e = Lnk (CapOf (cid d) i) \<and> x = Str (cwith (capabilities d ! i)))"
  unfolding mem_own_facts mem_capability_facts by auto

lemma own_nb [simp]:
  "(e, nb_attr f, x) \<in> set (own_facts d) \<longleftrightarrow>
     (\<exists>i < length (capabilities d). e = Lnk (CapOf (cid d) i) \<and> (f, x) \<in> set (nb (capabilities d ! i)))"
  unfolding mem_own_facts mem_capability_facts by auto

section \<open>The index of a delegation set\<close>

lemma db_lookup:
  "(e, v) \<in> set (index_lookup (db_index ds) a) \<longleftrightarrow>
   (\<exists>d \<in> set (all_delegations ds). (e, a, v) \<in> set (own_facts d))"
  by (simp add: db_index_def index_lookup_facts mem_project)

lemma subdelegations_closed:
  "d' \<in> set (subdelegations d) \<Longrightarrow> set (subdelegations d') \<subseteq> set (subdelegations d)"
proof (induction d rule: subdelegations.induct)
  case (1 c iss aud caps exp prfs)
  show ?case
  proof (cases "d' = Delegation c iss aud caps exp prfs")
    case True
    then show ?thesis by simp
  next
    case False
    with "1.prems" obtain q where "q \<in> set prfs" "d' \<in> set (subdelegations q)" by auto
    with "1.IH" show ?thesis by fastforce
  qed
qed

lemma all_delegations_closed:
  "d \<in> set (all_delegations ds) \<Longrightarrow> set (all_delegations [d]) \<subseteq> set (all_delegations ds)"
  unfolding all_delegations_def using subdelegations_closed by fastforce

lemma all_delegations_mono:
  "set ds \<subseteq> set es \<Longrightarrow> set (all_delegations ds) \<subseteq> set (all_delegations es)"
  unfolding all_delegations_def by auto

lemma cid_wf_mono: "cid_wf es \<Longrightarrow> set ds \<subseteq> set es \<Longrightarrow> cid_wf ds"
  unfolding cid_wf_def using all_delegations_mono by blast

lemma in_all_delegations: "d \<in> set ds \<Longrightarrow> d \<in> set (all_delegations ds)"
  unfolding all_delegations_def using subdelegations_self by fastforce

lemma project_append: "project (ds @ es) = project ds @ project es"
  by (simp add: project_def)

theorem db_index_redundant:
  assumes "set (all_delegations es) \<subseteq> set (all_delegations ds)"
  shows "db_index (ds @ es) = db_index ds"
proof -
  have "set (project es) \<subseteq> set (project ds)"
  proof
    fix x assume "x \<in> set (project es)"
    then obtain d where "d \<in> set (all_delegations es)" "x \<in> set (own_facts d)"
      by (auto simp only: mem_project)
    with assms show "x \<in> set (project ds)" by (auto simp only: mem_project)
  qed
  then show ?thesis
    by (simp add: db_index_def project_append build_index_redundant)
qed

corollary db_index_twice: "db_index (ds @ ds) = db_index ds"
  by (rule db_index_redundant) simp

corollary db_index_nested:
  "p \<in> set (all_delegations ds) \<Longrightarrow> db_index (ds @ [p]) = db_index ds"
  by (rule db_index_redundant) (rule all_delegations_closed)

end
