(* ===== verification/Matchers.thy ===== *)
theory Matchers
  imports Clause_Eval Projection
begin

text \<open>
  The domain matchers (spec section 4.5) and the three matchers of
  \<open>src/packages/w3up-client/src/authorization/query.js\<close>.

  Each matcher is a clause builder: it allocates the variables it needs
  with \<open>fresh\<close> (threading the counter through the state monad, in the
  order in which the JavaScript evaluates its default parameters and
  calls) and returns a clause. The clause itself is a plain function of the
  terms (\<open>*_clause\<close>), so that its meaning can be stated without the
  allocation. The matchers of the agent modules that \<open>query.js\<close> imports
  (\<open>Capability.match\<close>, \<open>Delegation.match\<close>, \<open>forwards\<close>, \<open>issuedBy\<close>,
  \<open>hasProof\<close>, \<open>Attestation.match\<close>, \<open>Text.match\<close>) are outside the
  sources and follow the spec.

  Selector objects with optional fields are records of \<open>dl_term option\<close>;
  a missing field is \<open>None\<close> and makes the matcher allocate a variable, as
  the JavaScript default \<open>= DB.string()\<close> does.
\<close>

record selector =
  sel_audience :: "dl_term option"
  sel_issuer :: "dl_term option"
  sel_subject :: "dl_term option"
  sel_can :: "dl_term option"
  sel_time :: "dl_term option"

definition no_sel :: selector where
  "no_sel = \<lparr>sel_audience = None, sel_issuer = None, sel_subject = None, sel_can = None,
             sel_time = None\<rparr>"

text \<open>A text constraint: an exact string or \<open>{ glob: pattern }\<close>.\<close>

datatype text_constraint = Exact string | GlobText string

section \<open>Matchers of the agent modules\<close>

text \<open>\<open>Capability.match(capability, { can, subject })\<close>.\<close>

definition capability_match :: "dl_term \<Rightarrow> dl_term \<Rightarrow> dl_term \<Rightarrow> clause" where
  "capability_match k ab subj =
     And (Match k ''capability/can'' ab) (Match k ''capability/with'' subj)"

text \<open>
  \<open>Delegation.match(delegation, { capability, audience, issuer, time })\<close>:
  the delegation carries the capability, has the audience and issuer, and its
  expiration (a fresh variable) is not before the time.
\<close>

definition delegation_clause ::
  "dl_term \<Rightarrow> dl_term \<Rightarrow> dl_term \<Rightarrow> dl_term \<Rightarrow> dl_term \<Rightarrow> dl_term \<Rightarrow> clause" where
  "delegation_clause d k aud iss t exp =
     And (And (And (And (Match d ''ucan/capability'' k) (Match d ''ucan/audience'' aud))
                   (Match d ''ucan/issuer'' iss))
              (Match d ''ucan/expiration'' exp))
         (Ge exp t)"

definition delegation_match ::
  "dl_term \<Rightarrow> dl_term \<Rightarrow> dl_term \<Rightarrow> dl_term \<Rightarrow> dl_term \<Rightarrow> (nat, clause) state" where
  "delegation_match d k aud iss t = do {
     exp \<leftarrow> fresh;
     State_Monad.return (delegation_clause d k aud iss t exp)
   }"

text \<open>
  \<open>Delegation.forwards(delegation, { issuer, audience, can, time })\<close>: the
  delegation re-delegates an ability on \<open>ucan:*\<close>, everything its issuer
  controls.
\<close>

definition forwards ::
  "dl_term \<Rightarrow> dl_term \<Rightarrow> dl_term \<Rightarrow> dl_term \<Rightarrow> dl_term \<Rightarrow> (nat, clause) state" where
  "forwards d iss aud ab t = do {
     k \<leftarrow> fresh;
     dm \<leftarrow> delegation_match d k aud iss t;
     State_Monad.return (And (capability_match k ab (Const (Str ''ucan:*''))) dm)
   }"

definition issued_by :: "dl_term \<Rightarrow> dl_term \<Rightarrow> clause" where
  "issued_by d iss = Match d ''ucan/issuer'' iss"

definition has_proof :: "dl_term \<Rightarrow> dl_term \<Rightarrow> clause" where
  "has_proof d p = Match d ''ucan/proof'' p"

text \<open>
  \<open>Attestation.match(attestation, { proof, time, audience })\<close>: an unexpired
  delegation to the audience whose capability is \<open>ucan/attest\<close> with
  \<open>nb.proof\<close> naming the proof. Its issuer is left free.
\<close>

definition attestation_match ::
  "dl_term \<Rightarrow> dl_term \<Rightarrow> dl_term \<Rightarrow> dl_term \<Rightarrow> (nat, clause) state" where
  "attestation_match att prf t aud = do {
     k \<leftarrow> fresh;
     iss \<leftarrow> fresh;
     dm \<leftarrow> delegation_match att k aud iss t;
     State_Monad.return
       (And dm (And (Match k ''capability/can'' (Const (Str ''ucan/attest'')))
                    (Match k (nb_attr ''proof'') prf)))
   }"

text \<open>\<open>Text.match(term, constraint)\<close>.\<close>

fun text_match :: "dl_term \<Rightarrow> text_constraint \<Rightarrow> clause" where
  "text_match x (Exact s) = Is x (Const (Str s))"
| "text_match x (GlobText p) = Glob x (Const (Str p))"

section \<open>The matchers of query.js\<close>

text \<open>
  \<open>explicit(delegation, selector)\<close> (query.js lines 116--136): defaults for
  audience, issuer, subject, can and time in that order, then the capability
  variable; \<open>Capability.match(...).and(Delegation.match(...))\<close>.
\<close>

definition explicit :: "dl_term \<Rightarrow> selector \<Rightarrow> (nat, clause) state" where
  "explicit d sel = do {
     aud \<leftarrow> opt_term (sel_audience sel);
     iss \<leftarrow> opt_term (sel_issuer sel);
     subj \<leftarrow> opt_term (sel_subject sel);
     ab \<leftarrow> opt_term (sel_can sel);
     t \<leftarrow> opt_term (sel_time sel);
     k \<leftarrow> fresh;
     dm \<leftarrow> delegation_match d k aud iss t;
     State_Monad.return (And (capability_match k ab subj) dm)
   }"

text \<open>
  \<open>implicit(delegation, selector)\<close> (query.js lines 154--184): defaults for
  subject, can, time, audience and issuer in that order, then the proof
  variable. The delegation forwards the ability on \<open>ucan:*\<close>, and either
  was issued by the subject or carries a proof that explicitly delegates the
  ability on the subject to the delegation's issuer. The inner
  \<open>DB.or(explicit(...))\<close> has one operand and is that operand; the recursive
  implicit case is a TODO in the source and is absent here too.
\<close>

definition implicit :: "dl_term \<Rightarrow> selector \<Rightarrow> (nat, clause) state" where
  "implicit d sel = do {
     subj \<leftarrow> opt_term (sel_subject sel);
     ab \<leftarrow> opt_term (sel_can sel);
     t \<leftarrow> opt_term (sel_time sel);
     aud \<leftarrow> opt_term (sel_audience sel);
     iss \<leftarrow> opt_term (sel_issuer sel);
     p \<leftarrow> fresh;
     fw \<leftarrow> forwards d iss aud ab t;
     ex \<leftarrow> explicit p (no_sel\<lparr>sel_audience := Some iss, sel_subject := Some subj,
                              sel_can := Some ab, sel_time := Some t\<rparr>);
     State_Monad.return (And fw (Or (issued_by d subj) (And (has_proof d p) ex)))
   }"

text \<open>
  \<open>match(delegation, selector)\<close> (query.js lines 199--212): defaults for
  audience, subject, issuer, can and time, then the disjunction of the
  explicit and the implicit match over the same terms.
\<close>

definition match :: "dl_term \<Rightarrow> selector \<Rightarrow> (nat, clause) state" where
  "match d sel = do {
     aud \<leftarrow> opt_term (sel_audience sel);
     subj \<leftarrow> opt_term (sel_subject sel);
     iss \<leftarrow> opt_term (sel_issuer sel);
     ab \<leftarrow> opt_term (sel_can sel);
     t \<leftarrow> opt_term (sel_time sel);
     let s = \<lparr>sel_audience = Some aud, sel_issuer = Some iss, sel_subject = Some subj,
              sel_can = Some ab, sel_time = Some t\<rparr>;
     ex \<leftarrow> explicit d s;
     im \<leftarrow> implicit d s;
     State_Monad.return (Or ex im)
   }"

text \<open>
  \<open>Account.match(ucan, { time, authority, account })\<close> of the agent
  modules (spec section 4.5): the implicit match of the delegation with
  the account as subject and the authority as audience, the account
  restricted to \<open>did:mailto:\<close> identifiers.
\<close>

definition account_match :: "dl_term \<Rightarrow> dl_term \<Rightarrow> dl_term \<Rightarrow> dl_term \<Rightarrow> (nat, clause) state" where
  "account_match ucan t aut acct = do {
     im \<leftarrow> implicit ucan (no_sel\<lparr>sel_subject := Some acct, sel_audience := Some aut, sel_time := Some t\<rparr>);
     State_Monad.return (And im (Glob acct (Const (Str ''did:mailto:*''))))
   }"

text \<open>
  A delegation is unexpired at a time when its expiration (infinite when it
  has none) is not before it; this is the \<open>Ge\<close> test of
  \<open>Delegation.match\<close>.
\<close>

definition unexpired_at :: "scalar \<Rightarrow> delegation \<Rightarrow> bool" where
  "unexpired_at t d \<longleftrightarrow> scalar_ge (expiry_scalar (expiration d)) t"

section \<open>Meaning of the matchers over a delegation store\<close>

text \<open>
  Over the index of a delegation set with unique content identifiers, each
  matcher's clause holds exactly when its terms resolve to the entities and
  values of one delegation of the set (nested proofs included).
\<close>

lemma sat_Match_db:
  "sat (db_index ds) (Match e a v) b \<longleftrightarrow>
   (\<exists>dl \<in> set (all_delegations ds). \<exists>e' v'.
      resolve b e = Const e' \<and> resolve b v = Const v' \<and> (e', a, v') \<in> set (own_facts dl))"
proof -
  have "sat (db_index ds) (Match e a v) b \<longleftrightarrow>
    (\<exists>e' v'. (e', v') \<in> set (index_lookup (db_index ds) a) \<and> resolve b e = Const e' \<and> resolve b v = Const v')"
    by auto
  also have "\<dots> \<longleftrightarrow> (\<exists>dl \<in> set (all_delegations ds). \<exists>e' v'.
      resolve b e = Const e' \<and> resolve b v = Const v' \<and> (e', a, v') \<in> set (own_facts dl))"
    by (simp only: db_lookup) blast
  finally show ?thesis .
qed

lemma cid_wf_unique:
  "cid_wf ds \<Longrightarrow> d \<in> set (all_delegations ds) \<Longrightarrow> d' \<in> set (all_delegations ds) \<Longrightarrow>
   cid d = cid d' \<Longrightarrow> d = d'"
  unfolding cid_wf_def by blast

lemma sat_delegation_clause:
  assumes wf: "cid_wf ds"
  shows "sat (db_index ds) (delegation_clause d k aud iss t exp) b \<longleftrightarrow>
    (\<exists>dl \<in> set (all_delegations ds).
       resolve b d = Const (Lnk (Ucan (cid dl))) \<and>
       (\<exists>i < length (capabilities dl). resolve b k = Const (Lnk (CapOf (cid dl) i))) \<and>
       resolve b aud = Const (Str (audience dl)) \<and>
       resolve b iss = Const (Str (issuer dl)) \<and>
       resolve b exp = Const (expiry_scalar (expiration dl)) \<and>
       (\<exists>s. resolve b t = Const s \<and> unexpired_at s dl))"
    (is "?l \<longleftrightarrow> ?r")
proof
  assume l: ?l
  have m: "sat (db_index ds) (Match d ''ucan/capability'' k) b"
    "sat (db_index ds) (Match d ''ucan/audience'' aud) b"
    "sat (db_index ds) (Match d ''ucan/issuer'' iss) b"
    "sat (db_index ds) (Match d ''ucan/expiration'' exp) b"
    "sat (db_index ds) (Ge exp t) b"
    using l unfolding delegation_clause_def sat.simps(2) by blast+
  from m(1) obtain d1 i where d1: "d1 \<in> set (all_delegations ds)"
    "resolve b d = Const (Lnk (Ucan (cid d1)))" "i < length (capabilities d1)"
    "resolve b k = Const (Lnk (CapOf (cid d1) i))"
    unfolding sat_Match_db by auto
  from m(2) obtain d2 where d2: "d2 \<in> set (all_delegations ds)"
    "resolve b d = Const (Lnk (Ucan (cid d2)))" "resolve b aud = Const (Str (audience d2))"
    unfolding sat_Match_db by auto
  from m(3) obtain d3 where d3: "d3 \<in> set (all_delegations ds)"
    "resolve b d = Const (Lnk (Ucan (cid d3)))" "resolve b iss = Const (Str (issuer d3))"
    unfolding sat_Match_db by auto
  from m(4) obtain d4 where d4: "d4 \<in> set (all_delegations ds)"
    "resolve b d = Const (Lnk (Ucan (cid d4)))"
    "resolve b exp = Const (expiry_scalar (expiration d4))"
    unfolding sat_Match_db by auto
  from m(5) obtain s' where ge: "resolve b t = Const s'"
    "scalar_ge (expiry_scalar (expiration d4)) s'"
    using d4(3) by auto
  from d1(2) d2(2) d3(2) d4(2) have "cid d2 = cid d1" "cid d3 = cid d1" "cid d4 = cid d1"
    by simp_all
  with d1(1) d2(1) d3(1) d4(1) wf have "d2 = d1" "d3 = d1" "d4 = d1"
    using cid_wf_unique by blast+
  with d1 d2 d3 d4 ge show ?r by (auto simp: unexpired_at_def)
next
  assume ?r
  then show ?l
    unfolding delegation_clause_def sat.simps(2) sat.simps(7) sat_Match_db
    by (auto simp: unexpired_at_def)
qed


section \<open>Allocation of the matchers\<close>

text \<open>
  The clauses the matchers build from a counter \<open>n\<close>, with the variables
  they allocate named by their numbers.
\<close>

lemma run_delegation_match [builder_simps]:
  "run_state (delegation_match d k aud iss t) n = (delegation_clause d k aud iss t (Var n), Suc n)"
  by (simp add: delegation_match_def)

lemma run_forwards [builder_simps]:
  "run_state (forwards d iss aud ab t) n =
     (And (capability_match (Var n) ab (Const (Str ''ucan:*'')))
          (delegation_clause d (Var n) aud iss t (Var (Suc n))), Suc (Suc n))"
  by (simp add: forwards_def run_delegation_match)

lemma run_attestation_match [builder_simps]:
  "run_state (attestation_match att prf t aud) n =
     (And (delegation_clause att (Var n) aud (Var (Suc n)) t (Var (Suc (Suc n))))
          (And (Match (Var n) ''capability/can'' (Const (Str ''ucan/attest'')))
               (Match (Var n) (nb_attr ''proof'') prf)), n + 3)"
  by (simp add: attestation_match_def run_delegation_match)

lemma run_explicit [builder_simps]:
  "run_state (explicit d \<lparr>sel_audience = Some aud, sel_issuer = Some iss, sel_subject = Some subj,
                          sel_can = Some ab, sel_time = Some t\<rparr>) n =
     (And (capability_match (Var n) ab subj) (delegation_clause d (Var n) aud iss t (Var (Suc n))),
      Suc (Suc n))"
  by (simp add: explicit_def run_opt_term run_delegation_match)

lemma run_explicit_no_issuer [builder_simps]:
  "run_state (explicit d \<lparr>sel_audience = Some aud, sel_issuer = None, sel_subject = Some subj,
                          sel_can = Some ab, sel_time = Some t\<rparr>) n =
     (And (capability_match (Var (Suc n)) ab subj)
          (delegation_clause d (Var (Suc n)) aud (Var n) t (Var (n + 2))), n + 3)"
  by (simp add: explicit_def run_opt_term run_delegation_match)

lemma run_implicit [builder_simps]:
  "run_state (implicit d \<lparr>sel_audience = Some aud, sel_issuer = Some iss, sel_subject = Some subj,
                          sel_can = Some ab, sel_time = Some t\<rparr>) n =
     (And (And (capability_match (Var (Suc n)) ab (Const (Str ''ucan:*'')))
               (delegation_clause d (Var (Suc n)) aud iss t (Var (n + 2))))
          (Or (issued_by d subj)
              (And (has_proof d (Var n))
                   (And (capability_match (Var (n + 4)) ab subj)
                        (delegation_clause (Var n) (Var (n + 4)) iss (Var (n + 3)) t (Var (n + 5)))))),
      n + 6)"
  by (simp add: implicit_def no_sel_def run_opt_term run_forwards run_explicit_no_issuer
      numeral_3_eq_3 eval_nat_numeral)

lemma run_match [builder_simps]:
  "run_state (match d \<lparr>sel_audience = Some aud, sel_issuer = Some iss, sel_subject = Some subj,
                       sel_can = Some ab, sel_time = Some t\<rparr>) n =
     (Or (And (capability_match (Var n) ab subj) (delegation_clause d (Var n) aud iss t (Var (Suc n))))
         (And (And (capability_match (Var (n + 3)) ab (Const (Str ''ucan:*'')))
                   (delegation_clause d (Var (n + 3)) aud iss t (Var (n + 4))))
              (Or (issued_by d subj)
                  (And (has_proof d (Var (n + 2)))
                       (And (capability_match (Var (n + 6)) ab subj)
                            (delegation_clause (Var (n + 2)) (Var (n + 6)) iss (Var (n + 5)) t
                               (Var (n + 7))))))),
      n + 8)"
  by (simp add: match_def Let_def run_opt_term run_explicit run_implicit eval_nat_numeral)


section \<open>Meaning of the composite matchers\<close>

lemma sat_capability_match:
  assumes wf: "cid_wf ds"
  shows "sat (db_index ds) (capability_match k ab subj) b \<longleftrightarrow>
    (\<exists>dl \<in> set (all_delegations ds). \<exists>i < length (capabilities dl).
       resolve b k = Const (Lnk (CapOf (cid dl) i)) \<and>
       resolve b ab = Const (Str (can (capabilities dl ! i))) \<and>
       resolve b subj = Const (Str (cwith (capabilities dl ! i))))"
    (is "?l \<longleftrightarrow> ?r")
proof
  assume ?l
  then have m: "sat (db_index ds) (Match k ''capability/can'' ab) b"
    "sat (db_index ds) (Match k ''capability/with'' subj) b"
    unfolding capability_match_def by simp_all
  from m(1) obtain d1 i where d1: "d1 \<in> set (all_delegations ds)" "i < length (capabilities d1)"
    "resolve b k = Const (Lnk (CapOf (cid d1) i))" "resolve b ab = Const (Str (can (capabilities d1 ! i)))"
    unfolding sat_Match_db by auto
  from m(2) obtain d2 j where d2: "d2 \<in> set (all_delegations ds)"
    "resolve b k = Const (Lnk (CapOf (cid d2) j))" "resolve b subj = Const (Str (cwith (capabilities d2 ! j)))"
    unfolding sat_Match_db by auto
  from d1(3) d2(2) have "cid d2 = cid d1" "j = i" by simp_all
  with d1(1) d2(1) wf have "d2 = d1" using cid_wf_unique by blast
  with d1 d2 \<open>j = i\<close> show ?r by blast
next
  assume ?r
  then show ?l unfolding capability_match_def sat.simps(2) sat_Match_db by auto
qed

lemma sat_explicit_clause:
  assumes wf: "cid_wf ds"
  shows "sat (db_index ds) (And (capability_match k ab subj) (delegation_clause d k aud iss t exp)) b \<longleftrightarrow>
    (\<exists>dl \<in> set (all_delegations ds). \<exists>i < length (capabilities dl).
       resolve b d = Const (Lnk (Ucan (cid dl))) \<and>
       resolve b k = Const (Lnk (CapOf (cid dl) i)) \<and>
       resolve b ab = Const (Str (can (capabilities dl ! i))) \<and>
       resolve b subj = Const (Str (cwith (capabilities dl ! i))) \<and>
       resolve b aud = Const (Str (audience dl)) \<and>
       resolve b iss = Const (Str (issuer dl)) \<and>
       resolve b exp = Const (expiry_scalar (expiration dl)) \<and>
       (\<exists>s. resolve b t = Const s \<and> unexpired_at s dl))"
    (is "?l \<longleftrightarrow> ?r")
proof
  assume ?l
  then have c: "sat (db_index ds) (capability_match k ab subj) b"
    and dc: "sat (db_index ds) (delegation_clause d k aud iss t exp) b" by simp_all
  from c obtain d1 i where d1: "d1 \<in> set (all_delegations ds)" "i < length (capabilities d1)"
    "resolve b k = Const (Lnk (CapOf (cid d1) i))"
    "resolve b ab = Const (Str (can (capabilities d1 ! i)))"
    "resolve b subj = Const (Str (cwith (capabilities d1 ! i)))"
    unfolding sat_capability_match [OF wf] by blast
  from dc obtain d2 j where d2: "d2 \<in> set (all_delegations ds)"
    "resolve b d = Const (Lnk (Ucan (cid d2)))"
    "resolve b k = Const (Lnk (CapOf (cid d2) j))"
    "resolve b aud = Const (Str (audience d2))" "resolve b iss = Const (Str (issuer d2))"
    "resolve b exp = Const (expiry_scalar (expiration d2))"
    "\<exists>s. resolve b t = Const s \<and> unexpired_at s d2"
    unfolding sat_delegation_clause [OF wf] by blast
  from d1(3) d2(3) have "cid d2 = cid d1" "j = i" by simp_all
  with d1(1) d2(1) wf have "d2 = d1" using cid_wf_unique by blast
  with d1 d2 show ?r by blast
next
  assume ?r
  then show ?l
    unfolding sat.simps(2) sat_capability_match [OF wf] sat_delegation_clause [OF wf] by blast
qed

lemma sat_issued_by:
  "sat (db_index ds) (issued_by d subj) b \<longleftrightarrow>
   (\<exists>dl \<in> set (all_delegations ds).
      resolve b d = Const (Lnk (Ucan (cid dl))) \<and> resolve b subj = Const (Str (issuer dl)))"
  unfolding issued_by_def sat_Match_db by auto

lemma sat_has_proof:
  "sat (db_index ds) (has_proof d p) b \<longleftrightarrow>
   (\<exists>dl \<in> set (all_delegations ds). resolve b d = Const (Lnk (Ucan (cid dl))) \<and>
      (\<exists>q \<in> set (proofs dl). resolve b p = Const (Lnk (Ucan (cid q)))))"
  unfolding has_proof_def sat_Match_db by auto

end
