(* ===== verification/Query.thy ===== *)
theory Query
  imports Matchers
begin

text \<open>
  The authorization resolver (spec section 4.6). \<open>query now sel\<close> is
  \<open>query(selector)\<close> of \<open>src/packages/w3up-client/src/authorization/query.js\<close>
  (lines 35--99): it allocates the subject and audience variables, one group
  of variables (issuer, ability, proof, attestation) per requested ability,
  or a single group without a need when no ability is requested, and builds
  one clause per group: the group's proof matches (explicitly or implicitly),
  its ability is constrained by the need, and a proof issued by a
  \<open>did:mailto:\<close> principal must be accompanied by an attestation. The
  subject and audience text constraints close the conjunction. The time
  defaults to \<open>now\<close> (the JavaScript \<open>Date.now() / 1000\<close>).

  \<open>run_query\<close> evaluates the conjunction of a query's clauses from the
  empty binding (the engine's \<open>DB.query\<close>). \<open>find_authorizations\<close>
  (the repository's \<open>Authorization.find\<close>, outside the sources, modelled
  from the spec) builds the index of the delegations, runs the query and
  turns every binding into an authorization record, merging records with
  the same authority and subject.
\<close>

record proof_group =
  pg_issuer :: dl_term
  pg_can :: dl_term
  pg_proof :: dl_term
  pg_attestation :: dl_term
  pg_need :: "ability option"

record query_selector =
  q_audience :: text_constraint
  q_can :: "ability list"
  q_subject :: "text_constraint option"
  q_time :: "epoch option"

record dl_query =
  select_proofs :: "proof_group list"
  select_subject :: dl_term
  select_audience :: dl_term
  query_where :: "clause list"

text \<open>
  The group of a requested ability (query.js lines 44--55): issuer, ability,
  proof and attestation variables, in the order of the object literal.
\<close>

definition new_group :: "ability option \<Rightarrow> (nat, proof_group) state" where
  "new_group need = do {
     iss \<leftarrow> fresh;
     ab \<leftarrow> fresh;
     p \<leftarrow> fresh;
     att \<leftarrow> fresh;
     State_Monad.return \<lparr>pg_issuer = iss, pg_can = ab, pg_proof = p, pg_attestation = att,
                         pg_need = need\<rparr>
   }"

text \<open>The clause of one group (query.js lines 58--83).\<close>

definition group_clause :: "dl_term \<Rightarrow> dl_term \<Rightarrow> epoch \<Rightarrow> proof_group \<Rightarrow> (nat, clause) state" where
  "group_clause subj aud t pg = do {
     c \<leftarrow> match (pg_proof pg)
            \<lparr>sel_audience = Some aud, sel_issuer = Some (pg_issuer pg), sel_subject = Some subj,
             sel_can = Some (pg_can pg), sel_time = Some (Const (Num t))\<rparr>;
     att \<leftarrow> attestation_match (pg_attestation pg) (pg_proof pg) (Const (Num t)) aud;
     let attestations = Or (Not (Glob (pg_issuer pg) (Const (Str ''did:mailto:*'')))) att;
     State_Monad.return
       (And (case pg_need pg of
               Some n \<Rightarrow> And c (Glob (Const (Str n)) (pg_can pg))
             | None \<Rightarrow> c)
            attestations)
   }"

text \<open>
  The defaults of \<open>query\<close>'s parameters: the time is \<open>now\<close> unless given;
  the needs are the requested abilities, or one group without a need (an
  ability \<open>''\<close> is falsy at lines 54 and 82, so its group has no need); the
  subject constraint is \<open>{ glob: '*' }\<close> unless given.
\<close>

definition query_time :: "epoch \<Rightarrow> query_selector \<Rightarrow> epoch" where
  "query_time now sel = (case q_time sel of Some t \<Rightarrow> t | None \<Rightarrow> now)"

definition query_needs :: "query_selector \<Rightarrow> ability option list" where
  "query_needs sel =
     (let need = q_can sel in if need \<noteq> [] then map (\<lambda>n. if n = [] then None else Some n) need else [None])"

definition query_subject :: "query_selector \<Rightarrow> text_constraint" where
  "query_subject sel = (case q_subject sel of Some c \<Rightarrow> c | None \<Rightarrow> GlobText ''*'')"

definition query :: "epoch \<Rightarrow> query_selector \<Rightarrow> (nat, dl_query) state" where
  "query now sel = do {
     subj \<leftarrow> fresh;
     aud \<leftarrow> fresh;
     let t = query_time now sel;
     groups \<leftarrow> traverse_list new_group (query_needs sel);
     wh \<leftarrow> traverse_list (group_clause subj aud t) groups;
     State_Monad.return
       \<lparr>select_proofs = groups, select_subject = subj, select_audience = aud,
        query_where =
          wh @ [text_match subj (query_subject sel),
                text_match aud (q_audience sel)]\<rparr>
   }"

section \<open>Running a query\<close>

text \<open>The conjunction of a \<open>where\<close> list; the empty conjunction holds.\<close>

fun where_clause :: "clause list \<Rightarrow> clause" where
  "where_clause [] = Is (Const (Str [])) (Const (Str []))"
| "where_clause (c # cs) = and_all c cs"

definition run_query :: "index \<Rightarrow> dl_query \<Rightarrow> error + binding list" where
  "run_query idx q = eval idx (where_clause (query_where q)) Map.empty"

definition build_query :: "epoch \<Rightarrow> query_selector \<Rightarrow> dl_query" where
  "build_query now sel = fst (run_state (query now sel) 0)"

section \<open>Authorization records\<close>

record authorization =
  authority :: did
  auth_subject :: did
  auth_can :: "ability list"
  auth_proofs :: "cid list"

fun term_value :: "binding \<Rightarrow> dl_term \<Rightarrow> scalar option" where
  "term_value b (Var v) = b v"
| "term_value b (Const c) = Some c"

fun scalar_str :: "scalar option \<Rightarrow> string" where
  "scalar_str (Some (Str s)) = s"
| "scalar_str _ = []"

fun scalar_cids :: "scalar option \<Rightarrow> cid list" where
  "scalar_cids (Some (Lnk (Ucan c))) = [c]"
| "scalar_cids _ = []"

text \<open>
  One binding as a record: the audience is the authority; the abilities are
  the needs, or the proof's own ability for a group without a need; the
  proofs are each group's proof followed by its attestation when one was
  bound, without repetition.
\<close>

definition authorization_of :: "dl_query \<Rightarrow> binding \<Rightarrow> authorization" where
  "authorization_of q b =
     \<lparr>authority = scalar_str (term_value b (select_audience q)),
      auth_subject = scalar_str (term_value b (select_subject q)),
      auth_can = union_list []
        (map (\<lambda>pg. case pg_need pg of Some n \<Rightarrow> n | None \<Rightarrow> scalar_str (term_value b (pg_can pg)))
             (select_proofs q)),
      auth_proofs = union_list []
        (concat (map (\<lambda>pg. scalar_cids (term_value b (pg_proof pg)) @
                            scalar_cids (term_value b (pg_attestation pg)))
                     (select_proofs q)))\<rparr>"

text \<open>Records with the same authority and subject are merged (spec 4.6).\<close>

fun merge_into :: "authorization \<Rightarrow> authorization list \<Rightarrow> authorization list" where
  "merge_into a [] = [a]"
| "merge_into a (x # xs) =
     (if authority x = authority a \<and> auth_subject x = auth_subject a
      then x\<lparr>auth_can := union_list (auth_can x) (auth_can a),
             auth_proofs := union_list (auth_proofs x) (auth_proofs a)\<rparr> # xs
      else x # merge_into a xs)"

definition group_authorizations :: "authorization list \<Rightarrow> authorization list" where
  "group_authorizations as = fold merge_into as []"

definition find_authorizations ::
  "delegation list \<Rightarrow> epoch \<Rightarrow> query_selector \<Rightarrow> error + authorization list" where
  "find_authorizations ds now sel =
     (let q = build_query now sel in
      case run_query (db_index ds) q of
        Inl e \<Rightarrow> Inl e
      | Inr bs \<Rightarrow> Inr (group_authorizations (map (authorization_of q) bs)))"

section \<open>Structure of a built query\<close>

text \<open>
  The conjunction of a \<open>where\<close> list holds when each clause holds; the
  traversal that builds the groups' clauses builds one clause per group. A
  built query selects subject \<open>Var 0\<close> and audience \<open>Var 1\<close>; its groups
  and clauses are allocated after them.
\<close>

lemma sat_where_clause:
  "sat idx (where_clause cs) b \<longleftrightarrow> (\<forall>c \<in> set cs. sat idx c b)"
  by (cases cs) (simp_all add: sat_and_all)

lemma run_new_group [builder_simps]:
  "run_state (new_group need) n =
     (\<lparr>pg_issuer = Var n, pg_can = Var (Suc n), pg_proof = Var (n + 2), pg_attestation = Var (n + 3),
       pg_need = need\<rparr>, n + 4)"
  by (simp add: new_group_def eval_nat_numeral)

lemma build_query_eq:
  "build_query now sel =
     (let (groups, n) = run_state (traverse_list new_group (query_needs sel)) 2 in
      \<lparr>select_proofs = groups, select_subject = Var 0, select_audience = Var 1,
       query_where = fst (run_state (traverse_list (group_clause (Var 0) (Var 1) (query_time now sel)) groups) n)
         @ [text_match (Var 0) (query_subject sel), text_match (Var 1) (q_audience sel)]\<rparr>)"
  by (simp add: build_query_def query_def numeral_2_eq_2 split: prod.splits)



lemma build_query_parts:
  assumes "run_state (traverse_list new_group (query_needs sel)) 2 = (groups, n)"
  shows "select_proofs (build_query now sel) = groups"
    "select_subject (build_query now sel) = Var 0"
    "select_audience (build_query now sel) = Var 1"
    "query_where (build_query now sel) =
       fst (run_state (traverse_list (group_clause (Var 0) (Var 1) (query_time now sel)) groups) n)
       @ [text_match (Var 0) (query_subject sel), text_match (Var 1) (q_audience sel)]"
  using assms by (simp_all add: build_query_eq)

lemma sat_query_where:
  assumes "sat idx (where_clause (query_where (build_query now sel))) b"
  shows "sat idx (text_match (select_subject (build_query now sel)) (query_subject sel)) b"
    "sat idx (text_match (select_audience (build_query now sel)) (q_audience sel)) b"
    "pg \<in> set (select_proofs (build_query now sel)) \<Longrightarrow>
       \<exists>m. sat idx (fst (run_state (group_clause (select_subject (build_query now sel))
                     (select_audience (build_query now sel)) (query_time now sel) pg) m)) b"
proof -
  obtain groups n where gn: "run_state (traverse_list new_group (query_needs sel)) 2 = (groups, n)"
    by (cases "run_state (traverse_list new_group (query_needs sel)) 2")
  note parts = build_query_parts [OF gn]
  have all: "\<forall>c \<in> set (query_where (build_query now sel)). sat idx c b"
    using assms unfolding sat_where_clause .
  show "sat idx (text_match (select_subject (build_query now sel)) (query_subject sel)) b"
    "sat idx (text_match (select_audience (build_query now sel)) (q_audience sel)) b"
    using all unfolding parts by simp_all
  assume "pg \<in> set (select_proofs (build_query now sel))"
  then obtain m where "fst (run_state (group_clause (Var 0) (Var 1) (query_time now sel) pg) m)
      \<in> set (fst (run_state (traverse_list (group_clause (Var 0) (Var 1) (query_time now sel)) groups) n))"
    unfolding parts using traverse_list_mem [of pg groups "group_clause (Var 0) (Var 1) (query_time now sel)" n] by blast
  with all show "\<exists>m. sat idx (fst (run_state (group_clause (select_subject (build_query now sel))
                     (select_audience (build_query now sel)) (query_time now sel) pg) m)) b"
    unfolding parts by auto
qed

end
