(* ===== verification/Resolution.thy ===== *)
theory Resolution
  imports Query
begin

text \<open>
  What the resolver promises, stated over delegations rather than facts
  (spec sections 4.5 and 4.6), and the proof that every answer of a built
  query meets it. A delegation is an explicit proof of an ability on a
  subject for an audience when it is unexpired, delegated to the audience and
  carries a capability with that ability on that subject; it is an implicit
  proof when it carries the ability on \<open>ucan:*\<close> and was issued by the
  subject or has a nested proof that explicitly delegates the ability on the
  subject to its issuer. A \<open>did:mailto:\<close> issuer needs an attestation: an
  unexpired \<open>ucan/attest\<close> delegation to the audience naming the proof.
\<close>

section \<open>The resolver's contract\<close>


definition grants :: "delegation \<Rightarrow> ability \<Rightarrow> string \<Rightarrow> bool" where
  "grants d ab res \<longleftrightarrow> (\<exists>c \<in> set (capabilities d). can c = ab \<and> cwith c = res)"

definition explicit_proof :: "delegation list \<Rightarrow> epoch \<Rightarrow> did \<Rightarrow> ability \<Rightarrow> did \<Rightarrow> delegation \<Rightarrow> bool" where
  "explicit_proof ds t aud ab subj d \<longleftrightarrow>
     d \<in> set (all_delegations ds) \<and> audience d = aud \<and> unexpired_at (Num t) d \<and> grants d ab subj"

definition implicit_proof :: "delegation list \<Rightarrow> epoch \<Rightarrow> did \<Rightarrow> ability \<Rightarrow> did \<Rightarrow> delegation \<Rightarrow> bool" where
  "implicit_proof ds t aud ab subj d \<longleftrightarrow>
     d \<in> set (all_delegations ds) \<and> audience d = aud \<and> unexpired_at (Num t) d \<and>
     grants d ab ''ucan:*'' \<and>
     (issuer d = subj \<or> (\<exists>p \<in> set (proofs d). explicit_proof ds t (issuer d) ab subj p))"

definition attested :: "delegation list \<Rightarrow> epoch \<Rightarrow> did \<Rightarrow> delegation \<Rightarrow> bool" where
  "attested ds t aud d \<longleftrightarrow>
     (\<exists>a \<in> set (all_delegations ds). audience a = aud \<and> unexpired_at (Num t) a \<and>
        (\<exists>c \<in> set (capabilities a). can c = ''ucan/attest'' \<and> (''proof'', Lnk (Ucan (cid d))) \<in> set (nb c)))"

fun text_ok :: "text_constraint \<Rightarrow> string \<Rightarrow> bool" where
  "text_ok (Exact s) x \<longleftrightarrow> x = s"
| "text_ok (GlobText p) x \<longleftrightarrow> glob_match p x"

fun need_ok :: "ability option \<Rightarrow> ability \<Rightarrow> bool" where
  "need_ok None ab \<longleftrightarrow> True"
| "need_ok (Some n) ab \<longleftrightarrow> glob_match ab n"

definition group_authorized ::
  "delegation list \<Rightarrow> epoch \<Rightarrow> did \<Rightarrow> did \<Rightarrow> binding \<Rightarrow> proof_group \<Rightarrow> bool" where
  "group_authorized ds t aud subj b pg \<longleftrightarrow>
     (\<exists>d \<in> set (all_delegations ds). \<exists>c \<in> set (capabilities d).
        term_value b (pg_proof pg) = Some (Lnk (Ucan (cid d))) \<and>
        term_value b (pg_issuer pg) = Some (Str (issuer d)) \<and>
        term_value b (pg_can pg) = Some (Str (can c)) \<and>
        (explicit_proof ds t aud (can c) subj d \<or> implicit_proof ds t aud (can c) subj d) \<and>
        need_ok (pg_need pg) (can c) \<and>
        (glob_match ''did:mailto:*'' (issuer d) \<longrightarrow> attested ds t aud d))"

section \<open>Each clause builder meets its part of the contract\<close>

lemma term_value_resolve: "term_value b x = Some s \<longleftrightarrow> resolve b x = Const s"
  by (cases x) (auto split: option.splits)

lemma sat_explicit_sound:
  assumes wf: "cid_wf ds"
    and s: "sat (db_index ds) (And (capability_match k ab subj) (delegation_clause d k aud iss (Const (Num tm)) e)) b"
  shows "\<exists>dl \<in> set (all_delegations ds). \<exists>c \<in> set (capabilities dl).
           resolve b d = Const (Lnk (Ucan (cid dl))) \<and> resolve b ab = Const (Str (can c)) \<and>
           resolve b subj = Const (Str (cwith c)) \<and> resolve b aud = Const (Str (audience dl)) \<and>
           resolve b iss = Const (Str (issuer dl)) \<and> unexpired_at (Num tm) dl"
proof -
  obtain dl i where dl: "dl \<in> set (all_delegations ds)" "i < length (capabilities dl)"
    "resolve b d = Const (Lnk (Ucan (cid dl)))"
    "resolve b ab = Const (Str (can (capabilities dl ! i)))"
    "resolve b subj = Const (Str (cwith (capabilities dl ! i)))"
    "resolve b aud = Const (Str (audience dl))" "resolve b iss = Const (Str (issuer dl))"
    "unexpired_at (Num tm) dl"
    using s unfolding sat_explicit_clause [OF wf] by auto
  then show ?thesis by (intro bexI [OF _ dl(1)] bexI [OF _ nth_mem [OF dl(2)]]) simp
qed


lemma sat_implicit_sound:
  assumes wf: "cid_wf ds"
    and s: "sat (db_index ds)
      (And (And (capability_match k1 ab (Const (Str ''ucan:*'')))
                (delegation_clause d k1 aud iss (Const (Num tm)) e1))
           (Or (issued_by d subj)
               (And (has_proof d p)
                    (And (capability_match k2 ab subj)
                         (delegation_clause p k2 iss iss2 (Const (Num tm)) e2))))) b"
  shows "\<exists>dl \<in> set (all_delegations ds). \<exists>c \<in> set (capabilities dl).
           resolve b d = Const (Lnk (Ucan (cid dl))) \<and> resolve b ab = Const (Str (can c)) \<and>
           resolve b aud = Const (Str (audience dl)) \<and> resolve b iss = Const (Str (issuer dl)) \<and>
           (\<exists>sj. resolve b subj = Const (Str sj) \<and> implicit_proof ds tm (audience dl) (can c) sj dl)"
proof -
  from s have fw: "sat (db_index ds) (And (capability_match k1 ab (Const (Str ''ucan:*'')))
                (delegation_clause d k1 aud iss (Const (Num tm)) e1)) b"
    and alt: "sat (db_index ds) (issued_by d subj) b \<or>
              sat (db_index ds) (And (has_proof d p) (And (capability_match k2 ab subj)
                         (delegation_clause p k2 iss iss2 (Const (Num tm)) e2))) b"
    by simp_all
  obtain dl c where dl: "dl \<in> set (all_delegations ds)" "c \<in> set (capabilities dl)"
    "resolve b d = Const (Lnk (Ucan (cid dl)))" "resolve b ab = Const (Str (can c))"
    "cwith c = ''ucan:*''" "resolve b aud = Const (Str (audience dl))"
    "resolve b iss = Const (Str (issuer dl))" "unexpired_at (Num tm) dl"
    using sat_explicit_sound [OF wf fw] by auto
  have g: "grants dl (can c) ''ucan:*''" using dl(2,5) unfolding grants_def by blast
  from alt have "\<exists>sj. resolve b subj = Const (Str sj) \<and>
      (issuer dl = sj \<or> (\<exists>q \<in> set (proofs dl). explicit_proof ds tm (issuer dl) (can c) sj q))"
  proof
    assume "sat (db_index ds) (issued_by d subj) b"
    then obtain dl' where "dl' \<in> set (all_delegations ds)"
      "resolve b d = Const (Lnk (Ucan (cid dl')))" "resolve b subj = Const (Str (issuer dl'))"
      unfolding sat_issued_by by blast
    moreover from this dl(3) have "dl' = dl" using cid_wf_unique [OF wf _ dl(1)] by simp
    ultimately show ?thesis by blast
  next
    assume hp: "sat (db_index ds) (And (has_proof d p) (And (capability_match k2 ab subj)
                         (delegation_clause p k2 iss iss2 (Const (Num tm)) e2))) b"
    then obtain dl' q where dl': "dl' \<in> set (all_delegations ds)"
      "resolve b d = Const (Lnk (Ucan (cid dl')))" "q \<in> set (proofs dl')"
      "resolve b p = Const (Lnk (Ucan (cid q)))"
      unfolding sat.simps(2) sat_has_proof by blast
    from dl'(1,2) dl(3) have "dl' = dl" using cid_wf_unique [OF wf _ dl(1)] by simp
    with dl' have q: "q \<in> set (proofs dl)" "q \<in> set (all_delegations ds)"
      using all_delegations_proof [OF dl(1)] by auto
    from hp obtain pl c' where pl: "pl \<in> set (all_delegations ds)" "c' \<in> set (capabilities pl)"
      "resolve b p = Const (Lnk (Ucan (cid pl)))" "resolve b ab = Const (Str (can c'))"
      "resolve b subj = Const (Str (cwith c'))" "resolve b iss = Const (Str (audience pl))"
      "unexpired_at (Num tm) pl"
      using sat_explicit_sound [OF wf] by (meson sat.simps(2))
    from pl(3) dl'(4) have "pl = q" using cid_wf_unique [OF wf pl(1) q(2)] by simp
    moreover from pl(4) dl(4) have "can c' = can c" by simp
    moreover from pl(6) dl(7) have "audience pl = issuer dl" by simp
    ultimately have "explicit_proof ds tm (issuer dl) (can c) (cwith c') q"
      using pl unfolding explicit_proof_def grants_def by blast
    with q(1) pl(5) show ?thesis by blast
  qed
  with dl g show ?thesis unfolding implicit_proof_def by blast
qed


lemma sat_attestation_sound:
  assumes wf: "cid_wf ds"
    and s: "sat (db_index ds)
      (And (delegation_clause att k aud iss (Const (Num tm)) e)
           (And (Match k ''capability/can'' (Const (Str ''ucan/attest'')))
                (Match k (nb_attr ''proof'') pv))) b"
    and pv: "resolve b pv = Const (Lnk (Ucan (cid d)))"
    and aud: "resolve b aud = Const (Str a)"
  shows "attested ds tm a d"
proof -
  from s have dc: "sat (db_index ds) (delegation_clause att k aud iss (Const (Num tm)) e) b"
    and mc: "sat (db_index ds) (Match k ''capability/can'' (Const (Str ''ucan/attest''))) b"
    and mn: "sat (db_index ds) (Match k (nb_attr ''proof'') pv) b"
    by simp_all
  from dc obtain al i where al: "al \<in> set (all_delegations ds)" "i < length (capabilities al)"
    "resolve b k = Const (Lnk (CapOf (cid al) i))" "resolve b aud = Const (Str (audience al))"
    "unexpired_at (Num tm) al"
    unfolding sat_delegation_clause [OF wf] by auto
  from mc obtain a1 j where a1: "a1 \<in> set (all_delegations ds)"
    "resolve b k = Const (Lnk (CapOf (cid a1) j))" "can (capabilities a1 ! j) = ''ucan/attest''"
    unfolding sat_Match_db by auto
  from mn obtain a2 j' v where a2: "a2 \<in> set (all_delegations ds)"
    "resolve b k = Const (Lnk (CapOf (cid a2) j'))" "resolve b pv = Const v"
    "(''proof'', v) \<in> set (nb (capabilities a2 ! j'))"
    unfolding sat_Match_db by auto
  from a1(2) al(3) have "a1 = al" "j = i" using cid_wf_unique [OF wf a1(1) al(1)] by simp_all
  moreover from a2(2) al(3) have "a2 = al" "j' = i" using cid_wf_unique [OF wf a2(1) al(1)] by simp_all
  moreover from a2(3) pv have "v = Lnk (Ucan (cid d))" by simp
  moreover from al(4) aud have "audience al = a" by simp
  ultimately show ?thesis
    unfolding attested_def using al a1 a2 nth_mem [OF al(2)] by blast
qed

lemma sat_text_match:
  "sat idx (text_match x c) b \<longleftrightarrow> (\<exists>s. resolve b x = Const (Str s) \<and> text_ok c s)"
proof (cases c)
  case (GlobText p)
  have "glob_scalar (Str p) s' \<longleftrightarrow> (\<exists>s. s' = Str s \<and> glob_match p s)" for s'
    by (cases s') simp_all
  then show ?thesis using GlobText by auto
qed simp

lemma sat_not_mailto:
  assumes "resolve b iss = Const (Str i)"
  shows "sat idx (Or (Not (Glob iss (Const (Str ''did:mailto:*'')))) att) b \<longleftrightarrow>
         (glob_match ''did:mailto:*'' i \<longrightarrow> sat idx att b)"
proof -
  have "fv_term iss \<subseteq> dom b" using assms by (rule resolve_Const_dom)
  then show ?thesis using assms by (auto simp: fv_def)
qed

lemma sat_need_glob:
  assumes "resolve b ab = Const (Str x)"
  shows "sat idx (Glob (Const (Str n)) ab) b \<longleftrightarrow> glob_match x n"
  using assms by auto


lemma run_group_clause [builder_simps]:
  "run_state (group_clause subj aud t pg) n =
     (let m = fst (run_state (match (pg_proof pg)
                   \<lparr>sel_audience = Some aud, sel_issuer = Some (pg_issuer pg), sel_subject = Some subj,
                    sel_can = Some (pg_can pg), sel_time = Some (Const (Num t))\<rparr>) n);
          a = fst (run_state (attestation_match (pg_attestation pg) (pg_proof pg) (Const (Num t)) aud) (n + 8))
      in (And (case pg_need pg of Some nd \<Rightarrow> And m (Glob (Const (Str nd)) (pg_can pg)) | None \<Rightarrow> m)
              (Or (Not (Glob (pg_issuer pg) (Const (Str ''did:mailto:*'')))) a), n + 11))"
  by (simp add: group_clause_def run_match run_attestation_match Let_def)

lemma sat_match_sound:
  assumes wf: "cid_wf ds"
    and s: "sat (db_index ds) (fst (run_state (match d
              \<lparr>sel_audience = Some aud, sel_issuer = Some iss, sel_subject = Some subj,
               sel_can = Some ab, sel_time = Some (Const (Num tm))\<rparr>) n)) b"
  shows "\<exists>dl \<in> set (all_delegations ds). \<exists>c \<in> set (capabilities dl).
           resolve b d = Const (Lnk (Ucan (cid dl))) \<and> resolve b ab = Const (Str (can c)) \<and>
           resolve b aud = Const (Str (audience dl)) \<and> resolve b iss = Const (Str (issuer dl)) \<and>
           (\<exists>sj. resolve b subj = Const (Str sj) \<and>
              (explicit_proof ds tm (audience dl) (can c) sj dl \<or>
               implicit_proof ds tm (audience dl) (can c) sj dl))"
proof -
  from s consider
    (ex) "sat (db_index ds) (And (capability_match (Var n) ab subj)
            (delegation_clause d (Var n) aud iss (Const (Num tm)) (Var (Suc n)))) b"
  | (im) "sat (db_index ds)
      (And (And (capability_match (Var (n + 3)) ab (Const (Str ''ucan:*'')))
                (delegation_clause d (Var (n + 3)) aud iss (Const (Num tm)) (Var (n + 4))))
           (Or (issued_by d subj)
               (And (has_proof d (Var (n + 2)))
                    (And (capability_match (Var (n + 6)) ab subj)
                         (delegation_clause (Var (n + 2)) (Var (n + 6)) iss (Var (n + 5))
                            (Const (Num tm)) (Var (n + 7))))))) b"
    unfolding run_match by auto
  then show ?thesis
  proof cases
    case ex
    then obtain dl c where "dl \<in> set (all_delegations ds)" "c \<in> set (capabilities dl)"
      "resolve b d = Const (Lnk (Ucan (cid dl)))" "resolve b ab = Const (Str (can c))"
      "resolve b subj = Const (Str (cwith c))" "resolve b aud = Const (Str (audience dl))"
      "resolve b iss = Const (Str (issuer dl))" "unexpired_at (Num tm) dl"
      using sat_explicit_sound [OF wf] by blast
    moreover from this have "explicit_proof ds tm (audience dl) (can c) (cwith c) dl"
      unfolding explicit_proof_def grants_def by blast
    ultimately show ?thesis by blast
  next
    case im
    from sat_implicit_sound [OF wf im] show ?thesis by blast
  qed
qed

lemma sat_group_sound:
  assumes wf: "cid_wf ds"
    and s: "sat (db_index ds) (fst (run_state (group_clause subj aud tm pg) n)) b"
  shows "\<exists>a sj. resolve b aud = Const (Str a) \<and> resolve b subj = Const (Str sj) \<and>
           group_authorized ds tm a sj b pg"
proof -
  define m where "m = fst (run_state (match (pg_proof pg)
                   \<lparr>sel_audience = Some aud, sel_issuer = Some (pg_issuer pg), sel_subject = Some subj,
                    sel_can = Some (pg_can pg), sel_time = Some (Const (Num tm))\<rparr>) n)"
  define at where "at = fst (run_state (attestation_match (pg_attestation pg) (pg_proof pg)
                    (Const (Num tm)) aud) (n + 8))"
  have s': "sat (db_index ds) (case pg_need pg of Some nd \<Rightarrow> And m (Glob (Const (Str nd)) (pg_can pg))
                                | None \<Rightarrow> m) b"
    "sat (db_index ds) (Or (Not (Glob (pg_issuer pg) (Const (Str ''did:mailto:*'')))) at) b"
    using s unfolding run_group_clause m_def at_def Let_def by simp_all
  have sm: "sat (db_index ds) m b" using s'(1) by (cases "pg_need pg") simp_all
  obtain dl c sj where dl: "dl \<in> set (all_delegations ds)" "c \<in> set (capabilities dl)"
    "resolve b (pg_proof pg) = Const (Lnk (Ucan (cid dl)))" "resolve b (pg_can pg) = Const (Str (can c))"
    "resolve b aud = Const (Str (audience dl))" "resolve b (pg_issuer pg) = Const (Str (issuer dl))"
    "resolve b subj = Const (Str sj)"
    "explicit_proof ds tm (audience dl) (can c) sj dl \<or> implicit_proof ds tm (audience dl) (can c) sj dl"
    using sat_match_sound [OF wf sm [unfolded m_def]] by blast
  have need: "need_ok (pg_need pg) (can c)"
  proof (cases "pg_need pg")
    case (Some nd)
    with s'(1) have "sat (db_index ds) (Glob (Const (Str nd)) (pg_can pg)) b" by simp
    with dl(4) show ?thesis using Some by simp
  qed simp
  have att: "glob_match ''did:mailto:*'' (issuer dl) \<longrightarrow> attested ds tm (audience dl) dl"
  proof
    assume "glob_match ''did:mailto:*'' (issuer dl)"
    with s'(2) have "sat (db_index ds) at b" unfolding sat_not_mailto [OF dl(6)] by blast
    then show "attested ds tm (audience dl) dl"
      unfolding at_def run_attestation_match fst_conv
      by (rule sat_attestation_sound [OF wf _ dl(3) dl(5)])
  qed
  have "group_authorized ds tm (audience dl) sj b pg"
    unfolding group_authorized_def term_value_resolve using dl need att by blast
  with dl(5,7) show ?thesis by blast
qed

section \<open>Soundness of the query\<close>

lemma query_bindings_authorized:
  assumes wf: "cid_wf ds"
    and run: "run_query (db_index ds) (build_query now sel) = Inr bs"
    and b: "b \<in> set bs"
  shows "\<exists>a sj. term_value b (select_audience (build_query now sel)) = Some (Str a) \<and>
                term_value b (select_subject (build_query now sel)) = Some (Str sj) \<and>
                text_ok (q_audience sel) a \<and> text_ok (query_subject sel) sj \<and>
                (\<forall>pg \<in> set (select_proofs (build_query now sel)).
                   group_authorized ds (query_time now sel) a sj b pg)"
proof -
  have s: "sat (db_index ds) (where_clause (query_where (build_query now sel))) b"
    using eval_sound [OF run [unfolded run_query_def] b] by blast
  obtain a where a: "resolve b (select_audience (build_query now sel)) = Const (Str a)" "text_ok (q_audience sel) a"
    using sat_query_where(2) [OF s] unfolding sat_text_match by blast
  obtain sj where sj: "resolve b (select_subject (build_query now sel)) = Const (Str sj)" "text_ok (query_subject sel) sj"
    using sat_query_where(1) [OF s] unfolding sat_text_match by blast
  have "group_authorized ds (query_time now sel) a sj b pg"
    if pg: "pg \<in> set (select_proofs (build_query now sel))" for pg
  proof -
    obtain m where "sat (db_index ds) (fst (run_state (group_clause (select_subject (build_query now sel))
                     (select_audience (build_query now sel)) (query_time now sel) pg) m)) b"
      using sat_query_where(3) [OF s pg] by blast
    from sat_group_sound [OF wf this] a(1) sj(1) show ?thesis by auto
  qed
  with a sj show ?thesis unfolding term_value_resolve by blast
qed

text \<open>
  C1. Soundness of the resolver (spec section 8): over a store with unique
  content identifiers, every binding the engine returns for a built query
  binds the subject and audience to strings that meet the selector's text
  constraints, and binds each proof group to a delegation of the store that
  is an explicit or implicit proof of the group's ability on the subject for
  the audience, unexpired at the query time, whose ability matches the
  requested need, and which is attested when its issuer is a
  \<open>did:mailto:\<close> principal.
\<close>

theorem query_sound:
  assumes wf: "cid_wf ds"
    and run: "run_query (db_index ds) (build_query now sel) = Inr bs"
    and b: "b \<in> set bs"
  shows "\<exists>a sj. term_value b (select_audience (build_query now sel)) = Some (Str a) \<and>
                term_value b (select_subject (build_query now sel)) = Some (Str sj) \<and>
                text_ok (q_audience sel) a \<and> text_ok (query_subject sel) sj \<and>
                (\<forall>pg \<in> set (select_proofs (build_query now sel)).
                   group_authorized ds (query_time now sel) a sj b pg)"
  using assms by (rule query_bindings_authorized)

section \<open>A built query never raises a construction error\<close>

text \<open>
  Every negation and glob of a built query reads only variables that the
  matches before it bind: the issuer and ability of each group are bound by
  both the explicit and the implicit branch of its match, and the subject and
  audience by the first group. The static check \<open>safe\<close> therefore holds and
  the evaluator returns bindings for every selector.
\<close>

lemma query_needs_nonempty: "query_needs sel \<noteq> []"
  by (simp add: query_needs_def Let_def)

lemma safe_text_match:
  "fv_term x \<subseteq> B \<Longrightarrow> safe B (text_match x c)"
  by (cases c) auto

lemma safe_group_clause:
  "safe B (fst (run_state (group_clause subj aud t pg) n))"
  by (auto simp: run_group_clause run_match run_attestation_match capability_match_def
      delegation_clause_def issued_by_def has_proof_def fv_def Let_def split: option.split)

lemma bound_group_clause:
  "fv_term subj \<union> fv_term aud \<union> fv_term (pg_proof pg) \<union> fv_term (pg_issuer pg) \<union> fv_term (pg_can pg)
     \<subseteq> bound_vars (fst (run_state (group_clause subj aud t pg) n))"
  by (auto simp: run_group_clause run_match run_attestation_match capability_match_def
      delegation_clause_def issued_by_def has_proof_def Let_def split: option.split)

lemma safe_query_where:
  "safe {} (where_clause (query_where (build_query now sel)))"
proof -
  obtain groups n where gn: "run_state (traverse_list new_group (query_needs sel)) 2 = (groups, n)"
    by (cases "run_state (traverse_list new_group (query_needs sel)) 2")
  note parts = build_query_parts [OF gn]
  let ?g = "group_clause (Var 0) (Var 1) (query_time now sel)"
  have "length groups = length (query_needs sel)"
    using length_traverse_list [of new_group "query_needs sel" 2] gn by simp
  then obtain pg pgs where "groups = pg # pgs"
    using query_needs_nonempty by (cases groups) auto
  then obtain c cs where wh: "fst (run_state (traverse_list ?g groups) n) = c # cs"
    and c: "c = fst (run_state (?g pg) n)"
    unfolding \<open>groups = pg # pgs\<close> traverse_list_Cons_fst by blast
  have b: "{0, 1} \<subseteq> bound_vars c"
    using bound_group_clause [where subj="Var 0" and aud="Var 1" and t="query_time now sel" and pg=pg and n=n] c by auto
  show ?thesis
    unfolding parts wh append_Cons where_clause.simps
  proof (rule safe_and_all)
    show "safe {} c" using c safe_group_clause by simp
    show "\<forall>d \<in> set (cs @ [text_match (Var 0) (query_subject sel), text_match (Var 1) (q_audience sel)]).
            safe ({} \<union> bound_vars c) d"
    proof
      fix d
      assume "d \<in> set (cs @ [text_match (Var 0) (query_subject sel), text_match (Var 1) (q_audience sel)])"
      then consider "d \<in> set cs" | "d = text_match (Var 0) (query_subject sel)"
        | "d = text_match (Var 1) (q_audience sel)" by auto
      then show "safe ({} \<union> bound_vars c) d"
      proof cases
        case 1
        from wh have "d \<in> set (fst (run_state (traverse_list ?g groups) n))" using 1 by simp
        then obtain x m where "d = fst (run_state (?g x) m)"
          using traverse_list_elem [of d ?g groups n] by blast
        then show ?thesis using safe_group_clause by simp
      qed (use b safe_text_match in auto)
    qed
  qed
qed

lemma run_query_bound:
  "\<exists>bs. run_query idx (build_query now sel) = Inr bs \<and>
        (\<forall>b \<in> set bs. bound_vars (where_clause (query_where (build_query now sel))) \<subseteq> dom b)"
  unfolding run_query_def
  using eval_no_error [of Map.empty "where_clause (query_where (build_query now sel))" idx] safe_query_where
  by auto

text \<open>
  C3. A query built by \<open>query\<close> never raises a query-construction error
  (spec section 7): for every selector and every index, the engine returns a
  list of bindings.
\<close>

theorem query_no_error:
  "\<exists>bs. run_query idx (build_query now sel) = Inr bs"
  using run_query_bound by blast

section \<open>Completeness for direct grants\<close>

text \<open>
  A query for one ability has one group, whose issuer, ability, proof and
  attestation variables are 2 to 5; its clause is allocated from 6.
\<close>

lemma build_query_single:
  assumes "q_can sel = [ab]"
  shows "build_query now sel =
     \<lparr>select_proofs = [\<lparr>pg_issuer = Var 2, pg_can = Var 3, pg_proof = Var 4, pg_attestation = Var 5,
                        pg_need = (if ab = [] then None else Some ab)\<rparr>],
      select_subject = Var 0, select_audience = Var 1,
      query_where = [fst (run_state (group_clause (Var 0) (Var 1) (query_time now sel)
                        \<lparr>pg_issuer = Var 2, pg_can = Var 3, pg_proof = Var 4, pg_attestation = Var 5,
                         pg_need = (if ab = [] then None else Some ab)\<rparr>) 6),
                     text_match (Var 0) (query_subject sel), text_match (Var 1) (q_audience sel)]\<rparr>"
  using assms by (simp add: build_query_eq query_needs_def run_new_group split: prod.splits)

lemma bound_single_query:
  assumes "q_can sel = [ab]"
  shows "{0, 1, 4} \<subseteq> bound_vars (where_clause (query_where (build_query now sel)))"
proof -
  let ?pg = "\<lparr>pg_issuer = Var 2, pg_can = Var 3, pg_proof = Var 4, pg_attestation = Var 5,
              pg_need = (if ab = [] then None else Some ab)\<rparr>"
  have "{0, 1, 4} \<subseteq> bound_vars (fst (run_state (group_clause (Var 0) (Var 1) (query_time now sel) ?pg) 6))"
    using bound_group_clause [where subj="Var 0" and aud="Var 1" and t="query_time now sel" and pg="?pg" and n=6]
    by auto
  then show ?thesis unfolding build_query_single [OF assms] by auto
qed

lemma explicit_grant_found:
  assumes wf: "cid_wf ds"
    and d: "d \<in> set (all_delegations ds)" "c \<in> set (capabilities d)"
    and live: "unexpired_at (Num (query_time now sel)) d"
    and key: "\<not> glob_match ''did:mailto:*'' (issuer d)"
    and sel: "q_audience sel = Exact (audience d)" "q_can sel = [can c]" "text_ok (query_subject sel) (cwith c)"
  shows "\<exists>bs. run_query (db_index ds) (build_query now sel) = Inr bs \<and>
          (\<exists>b \<in> set bs.
             term_value b (select_subject (build_query now sel)) = Some (Str (cwith c)) \<and>
             term_value b (select_audience (build_query now sel)) = Some (Str (audience d)) \<and>
             (\<forall>pg \<in> set (select_proofs (build_query now sel)).
                term_value b (pg_proof pg) = Some (Lnk (Ucan (cid d)))))"
proof -
  obtain i where i: "i < length (capabilities d)" "capabilities d ! i = c"
    using d(2) by (auto simp: in_set_conv_nth)
  define t where "t = query_time now sel"
  define b' :: binding where "b' = [0 \<mapsto> Str (cwith c), 1 \<mapsto> Str (audience d), 2 \<mapsto> Str (issuer d),
     3 \<mapsto> Str (can c), 4 \<mapsto> Lnk (Ucan (cid d)), 6 \<mapsto> Lnk (CapOf (cid d) i),
     7 \<mapsto> expiry_scalar (expiration d)]"
  have ex: "sat (db_index ds) (And (capability_match (Var 6) (Var 3) (Var 0))
             (delegation_clause (Var 4) (Var 6) (Var 1) (Var 2) (Const (Num t)) (Var 7))) b'"
    unfolding sat_explicit_clause [OF wf] b'_def
    using d(1) i live unfolding t_def by auto
  have gc: "sat (db_index ds) (fst (run_state (group_clause (Var 0) (Var 1) t
              \<lparr>pg_issuer = Var 2, pg_can = Var 3, pg_proof = Var 4, pg_attestation = Var 5,
               pg_need = (if can c = [] then None else Some (can c))\<rparr>) 6)) b'"
    unfolding run_group_clause run_match Let_def fst_conv
    using ex key by (cases "can c = []") (simp_all add: b'_def fv_def)
  have "sat (db_index ds) (where_clause (query_where (build_query now sel))) b'"
    unfolding build_query_single [OF sel(2)] sat_where_clause
    using gc sel unfolding t_def
    by (cases "query_subject sel") (simp_all add: b'_def)
  note s = this
  obtain bs where bs: "run_query (db_index ds) (build_query now sel) = Inr bs"
    "\<forall>b \<in> set bs. bound_vars (where_clause (query_where (build_query now sel))) \<subseteq> dom b"
    using run_query_bound by blast
  obtain b1 where b1: "b1 \<in> set bs" "b1 \<subseteq>\<^sub>m b'"
    using eval_complete [OF bs(1) [unfolded run_query_def] map_le_empty s] by blast
  have "{0, 1, 4} \<subseteq> dom b1" using bs(2) b1(1) bound_single_query [OF sel(2)] by blast
  then have "b1 0 = b' 0" "b1 1 = b' 1" "b1 4 = b' 4"
    using b1(2) unfolding map_le_def by auto
  then show ?thesis using bs(1) b1(1)
    unfolding build_query_single [OF sel(2)] by (auto simp: b'_def)
qed

text \<open>
  C2. Completeness for explicit grants (spec section 8): when the store holds
  a delegation, not issued by a \<open>did:mailto:\<close> principal and unexpired at
  the query time, that grants an ability on a subject to an audience, the
  query for that ability by that audience (with a subject constraint the
  subject meets) returns a binding that selects the subject, the audience
  and that delegation as the proof.
\<close>

theorem query_complete_explicit:
  assumes wf: "cid_wf ds"
    and d: "d \<in> set (all_delegations ds)" "c \<in> set (capabilities d)"
    and live: "unexpired_at (Num (query_time now sel)) d"
    and key: "\<not> glob_match ''did:mailto:*'' (issuer d)"
    and sel: "q_audience sel = Exact (audience d)" "q_can sel = [can c]" "text_ok (query_subject sel) (cwith c)"
  shows "\<exists>bs. run_query (db_index ds) (build_query now sel) = Inr bs \<and>
          (\<exists>b \<in> set bs.
             term_value b (select_subject (build_query now sel)) = Some (Str (cwith c)) \<and>
             term_value b (select_audience (build_query now sel)) = Some (Str (audience d)) \<and>
             (\<forall>pg \<in> set (select_proofs (build_query now sel)).
                term_value b (pg_proof pg) = Some (Lnk (Ucan (cid d)))))"
  using assms by (rule explicit_grant_found)

end
