(* ===== verification/Scenarios.thy ===== *)
theory Scenarios
  imports Resolution
begin

text \<open>
  The tests of \<open>src/unnamed/part_001\<close> (the \<open>testDB\<close> suite and its
  \<open>setupAccount\<close> fixture), run through the model. The principals are
  fixed DIDs; content identifiers are small numbers. The helpers that build
  delegations stand for the ucanto and w3up calls the tests make, outside
  the sources: \<open>share\<close> is \<open>space.share(agent, { expiration })\<close>, a
  delegation of \<open>*\<close> on the space; \<open>attest\<close> is
  \<open>Capability.UCAN.attest.delegate\<close> by the service \<open>w3up\<close>; \<open>login\<close>
  is the \<open>delegate\<close> call of an account on \<open>ucan:*\<close>. The value each
  test asserts is a definition of its own; each scenario compares the
  model's answer with it, evaluated by \<open>code_simp\<close>, and where the two
  differ proves the difference.
\<close>

section \<open>Principals and delegation builders\<close>

definition alice :: did where "alice = ''did:key:alice''"
definition bob :: did where "bob = ''did:key:bob''"
definition w3up :: did where "w3up = ''did:web:web3.storage''"
definition space_did :: did where "space_did = ''did:key:space''"
definition account_did :: did where "account_did = ''did:mailto:web.mail:alice''"

definition share :: "cid \<Rightarrow> did \<Rightarrow> did \<Rightarrow> epoch option \<Rightarrow> delegation" where
  "share c sp agent exp = Delegation c sp agent [\<lparr>can = ''*'', cwith = sp, nb = []\<rparr>] exp []"

definition attest :: "cid \<Rightarrow> did \<Rightarrow> cid \<Rightarrow> delegation" where
  "attest c agent prf =
     Delegation c w3up agent [\<lparr>can = ''ucan/attest'', cwith = w3up, nb = [(''proof'', Lnk (Ucan prf))]\<rparr>] None []"

definition login :: "cid \<Rightarrow> did \<Rightarrow> did \<Rightarrow> ability \<Rightarrow> delegation list \<Rightarrow> delegation" where
  "login c acct agent ab prfs = Delegation c acct agent [\<lparr>can = ab, cwith = ''ucan:*'', nb = []\<rparr>] None prfs"

definition selector_of ::
  "text_constraint \<Rightarrow> ability list \<Rightarrow> text_constraint option \<Rightarrow> epoch option \<Rightarrow> query_selector" where
  "selector_of aud abl subj t = \<lparr>q_audience = aud, q_can = abl, q_subject = subj, q_time = t\<rparr>"

text \<open>
  \<open>setupAccount\<close> (lines 728--765): the space delegates \<open>*\<close> to the
  account (its recovery), the account logs the agent in on \<open>ucan:*\<close> with
  the recovery as proof, and the service attests the login.
\<close>

definition setup_account :: "cid \<Rightarrow> did \<Rightarrow> did \<Rightarrow> did \<Rightarrow> delegation list" where
  "setup_account c sp acct agent =
     (let recovery = Delegation c sp acct [\<lparr>can = ''*'', cwith = sp, nb = []\<rparr>] None [];
          lg = login (c + 1) acct agent ''*'' [recovery]
      in [lg, attest (c + 2) agent (c + 1)])"

section \<open>The scenarios\<close>

text \<open>\<open>test find space\<close> (lines 21--43): a \<open>store/add\<close> grant on a space to alice.\<close>

definition store_add_grant :: delegation where
  "store_add_grant = Delegation 1 space_did alice [\<lparr>can = ''store/add'', cwith = space_did, nb = []\<rparr>] None []"

definition sel_store_add :: query_selector where
  "sel_store_add = \<lparr>q_audience = Exact alice, q_can = [''store/add''], q_subject = None, q_time = None\<rparr>"

text \<open>\<open>account authority from authorization\<close> (lines 538--593).\<close>

definition account_proof :: delegation where
  "account_proof = login 10 account_did alice ''store/*'' []"

definition account_attestation :: delegation where
  "account_attestation = attest 11 alice 10"

definition sel_account :: query_selector where
  "sel_account = selector_of (Exact alice) [''store/add''] (Some (Exact account_did)) None"

text \<open>\<open>does not match expired ucans\<close> (lines 207--261), at time 1000 with a day of 100.\<close>

definition valid_share :: delegation where
  "valid_share = share 2 space_did alice (Some 1100)"

definition expired_share :: delegation where
  "expired_share = share 1 space_did alice (Some 900)"

definition sel_at :: "epoch \<Rightarrow> query_selector" where
  "sel_at t = selector_of (Exact alice) [''store/add''] None (Some t)"

text \<open>\<open>test find accounts ignoring spaces\<close> (lines 115--170).\<close>

definition ignoring_spaces_db :: "delegation list" where
  "ignoring_spaces_db = setup_account 20 ''did:key:remote'' account_did alice @ [share 1 ''did:key:local'' alice None]"

definition sel_accounts :: query_selector where
  "sel_accounts = selector_of (Exact alice) [''*''] (Some (GlobText ''did:mailto:*'')) None"

definition sel_key_spaces :: query_selector where
  "sel_key_spaces = selector_of (Exact alice) [''store/add''] (Some (GlobText ''did:key:*'')) None"

text \<open>\<open>test finds authorization across multiple ucans\<close> (lines 85--113).\<close>

definition multi_ucan_db :: "delegation list" where
  "multi_ucan_db = [Delegation 1 alice bob [\<lparr>can = ''space/info'', cwith = alice, nb = []\<rparr>] None [],
                    Delegation 2 alice bob [\<lparr>can = ''upload/list'', cwith = alice, nb = []\<rparr>] None []]"

definition sel_multi :: query_selector where
  "sel_multi = selector_of (Exact bob) [''space/info'', ''upload/list''] None None"

text \<open>\<open>find whatever capabilities match\<close> (lines 595--619).\<close>

definition two_cap_grant :: delegation where
  "two_cap_grant = Delegation 1 space_did alice [\<lparr>can = ''store/add'', cwith = space_did, nb = []\<rparr>,
                                                 \<lparr>can = ''upload/add'', cwith = space_did, nb = []\<rparr>] None []"

definition sel_any_at :: "epoch \<Rightarrow> query_selector" where
  "sel_any_at t = selector_of (Exact alice) [''*''] None (Some t)"

definition sel_any :: query_selector where
  "sel_any = selector_of (Exact alice) [] None None"

text \<open>
  \<open>test find accounts and attestations\<close> (lines 172--205): a direct
  \<open>DB.query\<close> over the facts, with \<open>loginProof\<close>, \<open>loginCan\<close>,
  \<open>attestProof\<close> and \<open>attestCan\<close> as variables 0 to 3.
\<close>

definition login_attestation_where :: "clause list" where
  "login_attestation_where =
     [Match (Var 0) ''ucan/audience'' (Const (Str alice)),
      Match (Var 0) ''ucan/capability'' (Var 1),
      Match (Var 1) ''capability/with'' (Const (Str ''ucan:*'')),
      Match (Var 2) ''ucan/audience'' (Const (Str alice)),
      Match (Var 2) ''ucan/capability'' (Var 3),
      Match (Var 3) ''capability/can'' (Const (Str ''ucan/attest'')),
      Match (Var 3) (nb_attr ''proof'') (Var 0)]"

text \<open>\<open>test find several spaces\<close> (lines 45--83): shares of two spaces to alice.\<close>

definition several_spaces_db :: "delegation list" where
  "several_spaces_db = [share 1 ''did:key:beet'' alice None, share 2 ''did:key:plum'' alice None]"

definition sel_two_abilities :: query_selector where
  "sel_two_abilities = selector_of (Exact alice) [''store/add'', ''store/remove''] None None"

text \<open>\<open>does match non-expiring ucans\<close> (lines 263--288): a share with infinite expiration.\<close>

definition non_expiring_share :: delegation where
  "non_expiring_share = share 3 space_did alice None"

text \<open>\<open>account authority from login\<close> (lines 492--536): a \<open>*\<close> login on \<open>ucan:*\<close>.\<close>

definition star_login :: delegation where
  "star_login = login 10 account_did alice ''*'' []"

text \<open>
  \<open>account view\<close> (lines 290--351): two accounts set up for alice and bob,
  and the \<open>Account.match\<close> query with \<open>ucan\<close>, \<open>audience\<close> and \<open>account\<close>
  as variables 0 to 2.
\<close>

definition account_view_db :: "delegation list" where
  "account_view_db = setup_account 20 ''did:key:s1'' account_did alice @
                     setup_account 30 ''did:key:s2'' ''did:mailto:web3.storage:bob'' bob"

definition account_view_where :: "clause list" where
  "account_view_where = [fst (run_state (account_match (Var 0) (Const (Num 1000)) (Var 1) (Var 2)) 3)]"

section \<open>The results the tests expect\<close>

text \<open>
  The values the tests pass to \<open>assert.deepEqual\<close>, as records; a record's
  proofs are the identifiers of the delegations the test lists.
\<close>

definition find_space_expected :: "authorization list" where
  "find_space_expected = [\<lparr>authority = alice, auth_subject = space_did, auth_can = [''store/add''], auth_proofs = [1]\<rparr>]"

definition several_spaces_expected :: "authorization list" where
  "several_spaces_expected =
     [\<lparr>authority = alice, auth_subject = ''did:key:beet'', auth_can = [''store/add'', ''store/remove''], auth_proofs = [1]\<rparr>,
      \<lparr>authority = alice, auth_subject = ''did:key:plum'', auth_can = [''store/add'', ''store/remove''], auth_proofs = [2]\<rparr>]"

definition multi_ucan_expected :: "authorization list" where
  "multi_ucan_expected = [\<lparr>authority = bob, auth_subject = alice, auth_can = [''space/info'', ''upload/list''], auth_proofs = [1, 2]\<rparr>]"

definition accounts_expected :: "authorization list" where
  "accounts_expected = [\<lparr>authority = alice, auth_subject = account_did, auth_can = [''*''], auth_proofs = [21, 22]\<rparr>]"

definition key_spaces_expected :: "authorization list" where
  "key_spaces_expected =
     [\<lparr>authority = alice, auth_subject = ''did:key:local'', auth_can = [''store/add''], auth_proofs = [1]\<rparr>,
      \<lparr>authority = alice, auth_subject = ''did:key:remote'', auth_can = [''store/add''], auth_proofs = [21, 22]\<rparr>]"

definition without_expired_expected :: "authorization list" where
  "without_expired_expected = [\<lparr>authority = alice, auth_subject = space_did, auth_can = [''store/add''], auth_proofs = [2]\<rparr>]"

definition with_expired_expected :: "authorization list" where
  "with_expired_expected = [\<lparr>authority = alice, auth_subject = space_did, auth_can = [''store/add''], auth_proofs = [2]\<rparr>, \<lparr>authority = alice, auth_subject = space_did, auth_can = [''store/add''], auth_proofs = [1]\<rparr>]"

definition non_expiring_expected :: "authorization list" where
  "non_expiring_expected = [\<lparr>authority = alice, auth_subject = space_did, auth_can = [''store/add''], auth_proofs = [3]\<rparr>]"

definition account_view_expected :: "(scalar option \<times> scalar option) list" where
  "account_view_expected =
     [(Some (Lnk (Ucan 21)), Some (Str account_did)),
      (Some (Lnk (Ucan 31)), Some (Str ''did:mailto:web3.storage:bob''))]"

definition login_authority_expected :: "authorization list" where
  "login_authority_expected = [\<lparr>authority = alice, auth_subject = account_did, auth_can = [''store/add''], auth_proofs = [10, 11]\<rparr>]"

definition attestation_expected :: "authorization list" where
  "attestation_expected = [\<lparr>authority = alice, auth_subject = account_did, auth_can = [''store/add''], auth_proofs = [10, 11]\<rparr>]"

definition login_attestation_expected :: "(scalar option \<times> scalar option) list" where
  "login_attestation_expected = [(Some (Lnk (Ucan 21)), Some (Lnk (Ucan 22)))]"

text \<open>One record per capability of the share, each with all its proofs.\<close>

definition any_ability_expected :: "authorization list" where
  "any_ability_expected =
     map (\<lambda>c. \<lparr>authority = alice, auth_subject = space_did, auth_can = [can c], auth_proofs = [1]\<rparr>) (capabilities two_cap_grant)"

section \<open>What the resolver returns on them\<close>

text \<open>
  \<open>test find space\<close> and spec scenario 1: alice's \<open>store/add\<close> grant on the
  space yields the one record the test expects, citing the grant.
\<close>

lemma scenario_find_space:
  "find_authorizations [store_add_grant] 1000 sel_store_add = Inr find_space_expected"
  by code_simp

text \<open>
  \<open>account authority from authorization\<close> and spec scenario 3: a
  \<open>ucan:*\<close> login issued by a \<open>did:mailto:\<close> account yields nothing without an
  attestation, and the record citing the login and the attestation once the
  attestation is added.
\<close>

lemma scenario_attestation_required:
  "find_authorizations [account_proof] 1000 sel_account = Inr [] \<and>
   find_authorizations [account_proof, account_attestation] 1000 sel_account = Inr attestation_expected"
  by code_simp

text \<open>
  \<open>does not match expired ucans\<close> and spec scenario 2: at time 1000 only
  the share expiring at 1100 is cited, as the test expects; at time 800 both
  shares match and, having the same authority and subject, are merged into
  one record, not the two records the test expects.
\<close>

lemma scenario_expiration:
  "find_authorizations [valid_share, expired_share] 1000 (sel_at 1000) = Inr without_expired_expected \<and>
   find_authorizations [valid_share, expired_share] 1000 (sel_at 800) =
     Inr [\<lparr>authority = alice, auth_subject = space_did, auth_can = [''store/add''], auth_proofs = [2, 1]\<rparr>] \<and>
   find_authorizations [valid_share, expired_share] 1000 (sel_at 800) \<noteq> Inr with_expired_expected"
  by code_simp

text \<open>
  \<open>test find accounts ignoring spaces\<close>: the account is found through
  the attested login; the \<open>did:key:\<close> spaces are the shared local space and,
  implicitly through the login's recovery proof, the account's space.
\<close>

lemma scenario_accounts_and_spaces:
  "find_authorizations ignoring_spaces_db 1000 sel_accounts = Inr accounts_expected \<and>
   find_authorizations ignoring_spaces_db 1000 sel_key_spaces = Inr key_spaces_expected"
  by code_simp

text \<open>
  \<open>test finds authorization across multiple ucans\<close> and spec scenario 4:
  two grants of different abilities to the same audience on the same subject
  are merged into one record listing both abilities and both proofs.
\<close>

lemma scenario_grouping:
  "find_authorizations multi_ucan_db 1000 sel_multi = Inr multi_ucan_expected"
  by code_simp

text \<open>
  \<open>test find several spaces\<close>: shares of two spaces to alice yield one
  record per space, each with both requested abilities and its own share.
\<close>

lemma scenario_several_spaces:
  "find_authorizations several_spaces_db 1000 sel_two_abilities = Inr several_spaces_expected"
  by code_simp

text \<open>
  \<open>does match non-expiring ucans\<close>: a share without expiration is found
  at every time, here the current time and a time far past it.
\<close>

lemma scenario_non_expiring:
  "find_authorizations [non_expiring_share] 1000 sel_store_add = Inr non_expiring_expected \<and>
   find_authorizations [non_expiring_share] 1000 (sel_at 4000000000) = Inr non_expiring_expected"
  by code_simp

text \<open>
  \<open>account authority from login\<close>: an attested \<open>*\<close> login of an account
  grants \<open>store/add\<close> on the account, citing the login and the attestation;
  without the attestation nothing is found.
\<close>

lemma scenario_login_authority:
  "find_authorizations [star_login, attest 11 alice 10] 1000 sel_account = Inr login_authority_expected \<and>
   find_authorizations [star_login] 1000 sel_account = Inr []"
  by code_simp

text \<open>
  \<open>account view\<close>: \<open>Account.match\<close> over two set-up accounts selects
  each account's login with its \<open>did:mailto:\<close> account, and not the
  \<open>did:key:\<close> spaces reached through the recovery proofs.
\<close>

lemma scenario_account_view:
  "map_sum id (map (\<lambda>b. (b 0, b 2))) (eval (db_index account_view_db) (where_clause account_view_where) Map.empty) =
   Inr account_view_expected"
  by code_simp

text \<open>
  \<open>test find accounts and attestations\<close>: over the login and the
  attestation of an account, the query selects exactly one pair, the login
  and the attestation that names it.
\<close>

lemma scenario_login_attestation:
  "map_sum id (map (\<lambda>b. (b 0, b 2)))
     (eval (db_index (setup_account 20 ''did:key:remote'' account_did alice))
           (where_clause login_attestation_where) Map.empty) =
   Inr login_attestation_expected"
  by code_simp

text \<open>
  \<open>find whatever capabilities match\<close>: without requested abilities each
  capability matches; the records have the same authority and subject and
  are merged into one, not the one record per capability the test expects.
\<close>

lemma scenario_any_ability:
  "find_authorizations [two_cap_grant] 1000 sel_any =
     Inr [\<lparr>authority = alice, auth_subject = space_did, auth_can = [''store/add'', ''upload/add''], auth_proofs = [1]\<rparr>] \<and>
   find_authorizations [two_cap_grant] 1000 sel_any \<noteq> Inr any_ability_expected"
  by code_simp

end
