(* ===== verification/Storage.thy ===== *)
theory Storage
  imports Projection
begin

text \<open>
  The delegation store of \<open>src/unnamed/part_000\<close> (lines 21--219),
  \<open>DbDelegationsStorageWithR2\<close>: delegations are written as one-delegation CAR
  archives into an R2 bucket under the key \<open><cid>.car\<close>, and indexed by a row
  \<open>(cid, audience, issuer)\<close> of the \<open>delegations_v3\<close> table whose \<open>cid\<close> column
  is unique (\<open>onConflict(cid).doNothing()\<close>). \<open>find\<close> and the iterator read
  the rows and load each delegation back from the bucket.

  The state is a record of the bucket (a map from keys to archive contents),
  the table (a list of rows in insertion order) and the database's
  \<open>canStream\<close> flag. The archive codec (\<open>delegationsToBytes\<close>,
  \<open>bytesToDelegations\<close>) is outside the sources; an archive is modelled by
  the list of delegations it holds, so decoding an encoded list gives it
  back. A CID's text is determined by its version and its multihash (the
  \<open>cid\<close> of the projection); \<open>toV1()\<close> keeps the multihash. The asynchronous
  writes of \<open>writeEntries\<close> (a \<open>Promise.all\<close>) are applied in order; two
  writes to one key carry the same archive, so their order does not matter.
  Generators are modelled by the list of delegations they yield and the
  error they throw, if any.
\<close>

datatype cid_version = CidV0 | CidV1

type_synonym cid_text = "cid_version \<times> cid"

text \<open>A delegation as ucanto hands it over: its content and the version of its CID.\<close>

record ucan =
  ucan_version :: cid_version
  ucan_dlg :: delegation

definition ucan_cid :: "ucan \<Rightarrow> cid_text" where
  "ucan_cid u = (ucan_version u, cid (ucan_dlg u))"

definition to_v1 :: "cid_text \<Rightarrow> cid_text" where
  "to_v1 c = (CidV1, snd c)"

text \<open>Errors the store throws.\<close>

datatype storage_error =
    MissingCar cid_text
  | UnexpectedCount nat
  | NotImplementedError

text \<open>A row of \<open>delegations_v3\<close> (\<open>createDelegationRowUpdateV3\<close>, lines 35--41).\<close>

record delegation_row =
  row_cid :: cid_text
  row_audience :: did
  row_issuer :: did

definition create_row_update :: "ucan \<Rightarrow> delegation_row" where
  "create_row_update d =
     \<lparr>row_cid = to_v1 (ucan_cid d), row_audience = audience (ucan_dlg d), row_issuer = issuer (ucan_dlg d)\<rparr>"

text \<open>
  \<open>delegationsTableBytesToArrayBuffer\<close> (lines 47--58): a typed-array view or
  a plain array of byte values becomes bytes; anything else is undefined.
\<close>

datatype sql_value = SqlView "nat list" | SqlArray "nat list" | SqlOther

fun table_bytes :: "sql_value \<Rightarrow> nat list option" where
  "table_bytes (SqlView bs) = Some bs"
| "table_bytes (SqlArray bs) = Some (map (\<lambda>b. b mod 256) bs)"
| "table_bytes SqlOther = None"

text \<open>The instance state (lines 65--86) and \<open>carFileKeyer\<close> (lines 192--194).\<close>

type_synonym car_key = "cid_text \<times> string"

record store =
  dags :: "car_key \<rightharpoonup> ucan list"
  rows :: "delegation_row list"
  can_stream :: bool

definition car_file_key :: "cid_text \<Rightarrow> car_key" where
  "car_file_key c = (c, ''.car'')"

text \<open>\<open>writeEntries\<close> and \<open>writeDelegations\<close> (lines 201--219).\<close>

definition write_entries :: "(car_key \<times> ucan list) list \<Rightarrow> (car_key \<rightharpoonup> ucan list) \<Rightarrow> (car_key \<rightharpoonup> ucan list)" where
  "write_entries es bucket = fold (\<lambda>(k, v) m. m(k \<mapsto> v)) es bucket"

definition write_delegations :: "ucan list \<Rightarrow> (car_key \<rightharpoonup> ucan list) \<Rightarrow> (car_key \<rightharpoonup> ucan list)" where
  "write_delegations ds bucket =
     write_entries (map (\<lambda>d. (car_file_key (ucan_cid d), [d])) ds) bucket"

text \<open>
  The insert of the rows with \<open>onConflict(cid).doNothing()\<close>: a row whose
  \<open>cid\<close> is already in the table, or earlier in the same batch, is skipped.
\<close>

fun insert_rows :: "delegation_row list \<Rightarrow> delegation_row list \<Rightarrow> delegation_row list" where
  "insert_rows tbl [] = tbl"
| "insert_rows tbl (r # rs) =
     insert_rows (if row_cid r \<in> set (map row_cid tbl) then tbl else tbl @ [r]) rs"

text \<open>\<open>putMany\<close> (lines 94--106): nothing for an empty call; the archives first, then the rows.\<close>

definition put_many :: "ucan list \<Rightarrow> store \<Rightarrow> store" where
  "put_many ds st =
     (if ds = [] then st
      else let st' = st\<lparr>dags := write_delegations ds (dags st)\<rparr>;
               values = map create_row_update ds
           in st'\<lparr>rows := insert_rows (rows st') values\<rparr>)"

text \<open>\<open>count\<close> (lines 109--111 and 181--187): the number of rows.\<close>

definition count_rows :: "store \<Rightarrow> int" where
  "count_rows st = int (length (rows st))"

text \<open>\<open>#rowToDelegation\<close> (lines 152--167).\<close>

definition row_to_delegation :: "store \<Rightarrow> delegation_row \<Rightarrow> storage_error + ucan" where
  "row_to_delegation st row =
     (case dags st (car_file_key (row_cid row)) of
        None \<Rightarrow> Inl (MissingCar (row_cid row))
      | Some ds \<Rightarrow> (if length ds \<noteq> 1 then Inl (UnexpectedCount (length ds)) else Inr (hd ds)))"

text \<open>
  A generator over rows: the delegations yielded before the first failure,
  and the failure.
\<close>

fun yield_rows :: "store \<Rightarrow> delegation_row list \<Rightarrow> ucan list \<times> storage_error option" where
  "yield_rows st [] = ([], None)"
| "yield_rows st (r # rs) =
     (case row_to_delegation st r of
        Inl e \<Rightarrow> ([], Some e)
      | Inr d \<Rightarrow> (let (ds, e) = yield_rows st rs in (d # ds, e)))"

text \<open>\<open>find\<close> (lines 116--127): the rows whose audience is the query's.\<close>

definition find_delegations :: "did \<Rightarrow> store \<Rightarrow> ucan list \<times> storage_error option" where
  "find_delegations aud st = yield_rows st (filter (\<lambda>r. row_audience r = aud) (rows st))"

text \<open>\<open>[Symbol.asyncIterator]\<close> (lines 129--144).\<close>

definition iterate :: "store \<Rightarrow> ucan list \<times> storage_error option" where
  "iterate st = (if \<not> can_stream st then ([], Some NotImplementedError) else yield_rows st (rows st))"

section \<open>The store's invariant\<close>

text \<open>
  A row is loadable when the bucket holds, under its key, an archive of one
  delegation whose row is that row. The store is consistent when its rows
  have distinct CIDs and each is loadable. A batch agrees with the store
  when it is content-addressed: delegations of the batch with one CID are
  equal, and one whose CID is already a row is the archived one.
\<close>

definition row_loaded :: "store \<Rightarrow> delegation_row \<Rightarrow> bool" where
  "row_loaded st r \<longleftrightarrow>
     (case dags st (car_file_key (row_cid r)) of Some [u] \<Rightarrow> create_row_update u = r | _ \<Rightarrow> False)"

definition store_inv :: "store \<Rightarrow> bool" where
  "store_inv st \<longleftrightarrow> distinct (map row_cid (rows st)) \<and> (\<forall>r \<in> set (rows st). row_loaded st r)"

definition batch_agrees :: "ucan list \<Rightarrow> store \<Rightarrow> bool" where
  "batch_agrees ds st \<longleftrightarrow>
     (\<forall>u \<in> set ds. \<forall>u' \<in> set ds. ucan_cid u = ucan_cid u' \<longrightarrow> u = u') \<and>
     (\<forall>u \<in> set ds. \<forall>r \<in> set (rows st). row_cid r = ucan_cid u \<longrightarrow>
        dags st (car_file_key (row_cid r)) = Some [u])"

definition empty_store :: "bool \<Rightarrow> store" where
  "empty_store streams = \<lparr>dags = Map.empty, rows = [], can_stream = streams\<rparr>"

text \<open>
  The delegations ucanto hands over are content-addressed: their CIDs are
  version 1 and a CID determines the delegation. The states reachable from
  an empty store by \<open>putMany\<close> of such delegations are \<open>store_reach\<close>.
\<close>


definition content_addressed :: "ucan list \<Rightarrow> bool" where
  "content_addressed us \<longleftrightarrow>
     (\<forall>u \<in> set us. ucan_version u = CidV1) \<and>
     (\<forall>u \<in> set us. \<forall>u' \<in> set us. ucan_cid u = ucan_cid u' \<longrightarrow> u = u')"

inductive store_reach :: "ucan list \<Rightarrow> store \<Rightarrow> bool" for us where
  reach_empty: "store_reach us (empty_store b)"
| reach_put: "store_reach us st \<Longrightarrow> set ds \<subseteq> set us \<Longrightarrow> store_reach us (put_many ds st)"

definition bucket_within :: "ucan list \<Rightarrow> store \<Rightarrow> bool" where
  "bucket_within us st \<longleftrightarrow> (\<forall>k v. dags st k = Some v \<longrightarrow> set v \<subseteq> set us)"

section \<open>The bucket and the table after a write\<close>


lemma write_delegations_Cons:
  "write_delegations (u # ds) m = write_delegations ds (m(car_file_key (ucan_cid u) \<mapsto> [u]))"
  by (simp add: write_delegations_def write_entries_def)

lemma write_delegations_lookup:
  "write_delegations ds m k =
     (case filter (\<lambda>u. car_file_key (ucan_cid u) = k) ds of [] \<Rightarrow> m k | us \<Rightarrow> Some [last us])"
proof (induction ds arbitrary: m)
  case Nil
  then show ?case by (simp add: write_delegations_def write_entries_def)
next
  case (Cons u ds)
  show ?case
    unfolding write_delegations_Cons Cons.IH
    by (auto split: list.split)
qed

lemma insert_rows_prefix: "\<exists>zs. insert_rows tbl rs = tbl @ zs"
proof (induction tbl rs rule: insert_rows.induct)
  case (2 tbl r rs)
  then obtain zs where "insert_rows (if row_cid r \<in> set (map row_cid tbl) then tbl else tbl @ [r]) rs =
      (if row_cid r \<in> set (map row_cid tbl) then tbl else tbl @ [r]) @ zs" by blast
  then show ?case by (cases "row_cid r \<in> set (map row_cid tbl)") auto
qed simp

lemma insert_rows_set: "set (insert_rows tbl rs) \<subseteq> set tbl \<union> set rs"
  by (induction tbl rs rule: insert_rows.induct) auto

lemma insert_rows_distinct:
  "distinct (map row_cid tbl) \<Longrightarrow> distinct (map row_cid (insert_rows tbl rs))"
  by (induction tbl rs rule: insert_rows.induct) auto

lemma insert_rows_covers:
  "row_cid ` set (insert_rows tbl rs) = row_cid ` set tbl \<union> row_cid ` set rs"
  by (induction tbl rs rule: insert_rows.induct) auto

section \<open>putMany preserves the invariant\<close>


lemma car_file_key_inject [simp]: "car_file_key c = car_file_key c' \<longleftrightarrow> c = c'"
  by (simp add: car_file_key_def)

lemma write_delegations_new:
  assumes "u \<in> set ds"
  shows "\<exists>u' \<in> set ds. ucan_cid u' = ucan_cid u \<and> write_delegations ds m (car_file_key (ucan_cid u)) = Some [u']"
proof -
  let ?us = "filter (\<lambda>v. car_file_key (ucan_cid v) = car_file_key (ucan_cid u)) ds"
  have ne: "?us \<noteq> []" using assms by (auto simp: filter_empty_conv)
  then have "last ?us \<in> set ?us" by (rule last_in_set)
  then have "last ?us \<in> set ds" "ucan_cid (last ?us) = ucan_cid u" by auto
  moreover have "write_delegations ds m (car_file_key (ucan_cid u)) = Some [last ?us]"
    unfolding write_delegations_lookup using ne by (auto split: list.split)
  ultimately show ?thesis by blast
qed

lemma write_delegations_cases:
  assumes "write_delegations ds m k = Some v"
  shows "(\<exists>u \<in> set ds. k = car_file_key (ucan_cid u) \<and> v = [u]) \<or> m k = Some v"
proof (cases "filter (\<lambda>u. car_file_key (ucan_cid u) = k) ds")
  case Nil
  then show ?thesis using assms unfolding write_delegations_lookup by simp
next
  case (Cons x xs)
  then have "last (x # xs) \<in> set (filter (\<lambda>u. car_file_key (ucan_cid u) = k) ds)"
    by (metis last_in_set list.distinct(1))
  moreover have "v = [last (x # xs)]" using assms Cons unfolding write_delegations_lookup by simp
  ultimately show ?thesis by auto
qed

lemma v1_cid: "ucan_version u = CidV1 \<Longrightarrow> to_v1 (ucan_cid u) = ucan_cid u"
  by (simp add: to_v1_def ucan_cid_def)

lemma row_cid_create: "ucan_version u = CidV1 \<Longrightarrow> row_cid (create_row_update u) = ucan_cid u"
  by (simp add: create_row_update_def v1_cid)

lemma row_loadedI: "dags st (car_file_key (row_cid r)) = Some [u] \<Longrightarrow> create_row_update u = r \<Longrightarrow> row_loaded st r"
  by (simp add: row_loaded_def)

lemma row_loadedE:
  "row_loaded st r \<Longrightarrow> (\<And>u. dags st (car_file_key (row_cid r)) = Some [u] \<Longrightarrow> create_row_update u = r \<Longrightarrow> P) \<Longrightarrow> P"
  by (auto simp: row_loaded_def split: option.splits list.splits)

theorem put_many_inv:
  assumes inv: "store_inv st"
    and v1: "\<forall>u \<in> set ds. ucan_version u = CidV1"
    and agree: "batch_agrees ds st"
  shows "store_inv (put_many ds st)"
proof (cases "ds = []")
  case True
  then show ?thesis using inv by (simp add: put_many_def)
next
  case False
  let ?m = "write_delegations ds (dags st)"
  let ?st = "st\<lparr>dags := ?m, rows := insert_rows (rows st) (map create_row_update ds)\<rparr>"
  have eq: "put_many ds st = ?st" using False by (simp add: put_many_def)
  have uniq: "\<And>u u'. u \<in> set ds \<Longrightarrow> u' \<in> set ds \<Longrightarrow> ucan_cid u = ucan_cid u' \<Longrightarrow> u = u'"
    and old: "\<And>u r. u \<in> set ds \<Longrightarrow> r \<in> set (rows st) \<Longrightarrow> row_cid r = ucan_cid u \<Longrightarrow>
                 dags st (car_file_key (row_cid r)) = Some [u]"
    using agree unfolding batch_agrees_def by blast+
  have "row_loaded ?st r" if r: "r \<in> set (insert_rows (rows st) (map create_row_update ds))" for r
  proof -
    from r insert_rows_set consider "r \<in> set (rows st)" | "r \<in> create_row_update ` set ds" by fastforce
    then show ?thesis
    proof cases
      case 1
      then obtain u where u: "dags st (car_file_key (row_cid r)) = Some [u]" "create_row_update u = r"
        using inv unfolding store_inv_def by (blast elim: row_loadedE)
      have "?m (car_file_key (row_cid r)) = Some [u]"
      proof (cases "?m (car_file_key (row_cid r))")
        case None
        then show ?thesis using u(1) unfolding write_delegations_lookup by (auto split: list.splits)
      next
        case (Some v)
        from write_delegations_cases [OF Some] show ?thesis
        proof
          assume "\<exists>u' \<in> set ds. car_file_key (row_cid r) = car_file_key (ucan_cid u') \<and> v = [u']"
          then obtain u' where "u' \<in> set ds" "row_cid r = ucan_cid u'" "v = [u']" by auto
          with old [OF _ 1] u(1) Some show ?thesis by auto
        qed (use Some u(1) in simp)
      qed
      with u(2) show ?thesis by (intro row_loadedI) simp_all
    next
      case 2
      then obtain u0 where u0: "u0 \<in> set ds" "r = create_row_update u0" by blast
      have c: "row_cid r = ucan_cid u0" using u0 v1 row_cid_create by simp
      obtain u' where "u' \<in> set ds" "ucan_cid u' = ucan_cid u0"
        "?m (car_file_key (ucan_cid u0)) = Some [u']"
        using write_delegations_new [OF u0(1)] by blast
      moreover from this uniq u0(1) have "u' = u0" by blast
      ultimately show ?thesis using c u0(2) by (intro row_loadedI) simp_all
    qed
  qed
  moreover have "distinct (map row_cid (insert_rows (rows st) (map create_row_update ds)))"
    using inv insert_rows_distinct unfolding store_inv_def by blast
  ultimately show ?thesis unfolding eq store_inv_def by simp
qed

section \<open>Reachable stores\<close>

lemma put_many_within:
  "bucket_within us st \<Longrightarrow> set ds \<subseteq> set us \<Longrightarrow> bucket_within us (put_many ds st)"
proof (cases "ds = []")
  case False
  assume w: "bucket_within us st" and ds: "set ds \<subseteq> set us"
  have "set v \<subseteq> set us" if "write_delegations ds (dags st) k = Some v" for k v
    using write_delegations_cases [OF that] w ds unfolding bucket_within_def by fastforce
  with False show ?thesis unfolding bucket_within_def put_many_def Let_def by simp
qed (simp add: put_many_def)

lemma batch_agrees_within:
  assumes ca: "content_addressed us" and inv: "store_inv st" and w: "bucket_within us st"
    and ds: "set ds \<subseteq> set us"
  shows "batch_agrees ds st"
proof -
  have u: "\<And>u u'. u \<in> set us \<Longrightarrow> u' \<in> set us \<Longrightarrow> ucan_cid u = ucan_cid u' \<Longrightarrow> u = u'"
    and v: "\<And>u. u \<in> set us \<Longrightarrow> ucan_version u = CidV1"
    using ca unfolding content_addressed_def by blast+
  have "dags st (car_file_key (row_cid r)) = Some [x]"
    if x: "x \<in> set ds" and r: "r \<in> set (rows st)" "row_cid r = ucan_cid x" for x r
  proof -
    obtain y where y: "dags st (car_file_key (row_cid r)) = Some [y]" "create_row_update y = r"
      using inv r(1) unfolding store_inv_def by (blast elim: row_loadedE)
    then have "y \<in> set us" using w unfolding bucket_within_def by fastforce
    with y(2) r(2) have "ucan_cid y = ucan_cid x" using v row_cid_create by fastforce
    with \<open>y \<in> set us\<close> x ds have "y = x" using u by blast
    with y(1) show ?thesis by simp
  qed
  then show ?thesis using ds u unfolding batch_agrees_def by blast
qed

lemma store_reach_inv:
  "store_reach us st \<Longrightarrow> content_addressed us \<Longrightarrow> store_inv st \<and> bucket_within us st"
proof (induction rule: store_reach.induct)
  case (reach_empty b)
  then show ?case by (simp add: store_inv_def bucket_within_def empty_store_def)
next
  case (reach_put st ds)
  then have "store_inv st" "bucket_within us st" by simp_all
  moreover have "\<forall>u \<in> set ds. ucan_version u = CidV1"
    using reach_put.prems reach_put.hyps(2) unfolding content_addressed_def by blast
  ultimately show ?case
    using put_many_inv batch_agrees_within [OF reach_put.prems] put_many_within reach_put.hyps(2)
    by blast
qed

lemma row_loaded_to_delegation:
  "row_loaded st r \<Longrightarrow> \<exists>u. row_to_delegation st r = Inr u \<and> create_row_update u = r"
  by (auto simp: row_loaded_def row_to_delegation_def split: option.splits list.splits)

lemma yield_rows_loaded:
  "\<forall>r \<in> set rs. row_loaded st r \<Longrightarrow>
     snd (yield_rows st rs) = None \<and> list_all2 (\<lambda>r u. row_to_delegation st r = Inr u) rs (fst (yield_rows st rs))"
proof (induction rs)
  case (Cons r rs)
  obtain u where "row_to_delegation st r = Inr u" using Cons.prems row_loaded_to_delegation by force
  with Cons show ?case by (auto split: prod.splits)
qed simp

text \<open>
  C11. Storing a batch twice is storing it once: the archives are rewritten with the same content and every row of the second insert conflicts with a row of the first (\<open>onConflict(cid).doNothing()\<close>).
\<close>

theorem put_many_idempotent: "put_many ds (put_many ds st) = put_many ds st"
proof -
  have "write_delegations ds (write_delegations ds m) = write_delegations ds m" for m
    by (rule ext) (simp add: write_delegations_lookup split: list.split)
  moreover have "insert_rows (insert_rows tbl rs) rs = insert_rows tbl rs" for tbl rs
  proof -
    have "row_cid ` set rs \<subseteq> row_cid ` set (insert_rows tbl rs)" using insert_rows_covers by blast
    moreover have "row_cid ` set rs' \<subseteq> row_cid ` set tbl' \<Longrightarrow> insert_rows tbl' rs' = tbl'" for tbl' rs'
      by (induction tbl' rs' rule: insert_rows.induct) auto
    ultimately show ?thesis by blast
  qed
  ultimately show ?thesis by (simp add: put_many_def Let_def)
qed

text \<open>
  Each inserted row adds one to the table exactly when its CID is new,
  also against the rows inserted before it in the same batch.
\<close>

lemma insert_rows_length:
  "length (insert_rows tbl rs) = length tbl + card (set (map row_cid rs) - set (map row_cid tbl))"
proof (induction tbl rs rule: insert_rows.induct)
  case (2 tbl r rs)
  show ?case
  proof (cases "row_cid r \<in> set (map row_cid tbl)")
    case True
    then have "set (map row_cid (r # rs)) - set (map row_cid tbl) = set (map row_cid rs) - set (map row_cid tbl)"
      by auto
    with True "2.IH" show ?thesis by simp
  next
    case False
    then have "set (map row_cid (r # rs)) - set (map row_cid tbl) =
        insert (row_cid r) (set (map row_cid rs) - set (map row_cid (tbl @ [r])))"
      unfolding set_map set_append list.set image_Un image_insert image_empty
      by (rule insert_Diff_fresh)
    moreover have "row_cid r \<notin> set (map row_cid rs) - set (map row_cid (tbl @ [r]))" by simp
    ultimately show ?thesis using False "2.IH" by simp
  qed
qed simp

text \<open>
  C12. \<open>count\<close> after \<open>putMany\<close> of a batch is the count before plus the
  number of distinct version-1 CIDs of the batch that had no row: every new
  CID adds one row, a CID already stored or repeated in the batch adds none
  (\<open>onConflict(cid).doNothing()\<close>).
\<close>

theorem count_put_many:
  "count_rows (put_many ds st) =
     count_rows st + int (card (set (map (\<lambda>u. to_v1 (ucan_cid u)) ds) - set (map row_cid (rows st))))"
proof -
  have "map row_cid (map create_row_update ds) = map (\<lambda>u. to_v1 (ucan_cid u)) ds"
    by (simp add: create_row_update_def)
  then show ?thesis
    using insert_rows_length [of "rows st" "map create_row_update ds"]
    by (simp add: count_rows_def put_many_def Let_def)
qed

section \<open>Reading the store back\<close>


lemma yield_rows_member:
  "list_all2 (\<lambda>r u. row_to_delegation st r = Inr u) rs us \<Longrightarrow> r \<in> set rs \<Longrightarrow>
     row_to_delegation st r = Inr u \<Longrightarrow> u \<in> set us"
  by (induction rule: list_all2_induct) auto

lemma row_to_delegation_key:
  "dags st (car_file_key (row_cid r)) = Some [u] \<Longrightarrow> row_to_delegation st r = Inr u"
  by (simp add: row_to_delegation_def)

lemma yield_rows_within:
  "bucket_within us st \<Longrightarrow> set (fst (yield_rows st rs)) \<subseteq> set us"
proof (induction rs)
  case (Cons r rs)
  show ?case
  proof (cases "row_to_delegation st r")
    case (Inl e)
    then show ?thesis by simp
  next
    case (Inr v)
    then obtain vs where vs: "dags st (car_file_key (row_cid r)) = Some vs" "length vs = 1" "v = hd vs"
      by (auto simp: row_to_delegation_def split: option.splits if_splits)
    then have "v \<in> set vs" by (cases vs) simp_all
    then have "v \<in> set us" using Cons.prems vs(1) unfolding bucket_within_def by blast
    with Inr Cons show ?thesis by (cases "yield_rows st rs") simp
  qed
qed simp

lemma find_put_within:
  assumes ca: "content_addressed us" and reach: "store_reach us st"
    and ds: "set ds \<subseteq> set us" and u: "u \<in> set ds"
  shows "\<exists>vs. find_delegations (audience (ucan_dlg u)) (put_many ds st) = (vs, None) \<and> u \<in> set vs \<and>
           set vs \<subseteq> set us"
proof -
  let ?st = "put_many ds st"
  have reach': "store_reach us ?st" using reach ds by (rule reach_put)
  have inv: "store_inv ?st" and w: "bucket_within us ?st" using store_reach_inv [OF reach' ca] by blast+
  have uniq: "\<And>x y. x \<in> set us \<Longrightarrow> y \<in> set us \<Longrightarrow> ucan_cid x = ucan_cid y \<Longrightarrow> x = y"
    and v1: "ucan_version u = CidV1" using ca u ds unfolding content_addressed_def by blast+
  have ne: "ds \<noteq> []" using u by auto
  obtain u' where u': "u' \<in> set ds" "ucan_cid u' = ucan_cid u"
    "dags ?st (car_file_key (ucan_cid u)) = Some [u']"
    using write_delegations_new [OF u] ne by (auto simp: put_many_def Let_def)
  have "u' \<in> set us" "u \<in> set us" using u'(1) u ds by blast+
  from uniq [OF this u'(2)] have "u' = u" .
  have rows_eq: "rows ?st = insert_rows (rows st) (map create_row_update ds)"
    using ne by (simp add: put_many_def Let_def)
  have "row_cid (create_row_update u) = ucan_cid u" by (rule row_cid_create [OF v1])
  then have "ucan_cid u \<in> row_cid ` set (map create_row_update ds)"
    using u by (auto intro!: image_eqI [where x = "create_row_update u"])
  then have "ucan_cid u \<in> row_cid ` set (rows ?st)"
    unfolding rows_eq insert_rows_covers by blast
  then obtain r where r: "r \<in> set (rows ?st)" "row_cid r = ucan_cid u" by (metis imageE)
  then obtain x where x: "dags ?st (car_file_key (row_cid r)) = Some [x]" "create_row_update x = r"
    using inv unfolding store_inv_def by (blast elim: row_loadedE)
  with u'(3) r(2) \<open>u' = u\<close> have "x = u" by simp
  with x have "row_audience r = audience (ucan_dlg u)" "row_to_delegation ?st r = Inr u"
    by (auto simp: create_row_update_def intro: row_to_delegation_key)
  moreover have "\<forall>r' \<in> set (filter (\<lambda>r. row_audience r = audience (ucan_dlg u)) (rows ?st)). row_loaded ?st r'"
    using inv unfolding store_inv_def by simp
  note yl = yield_rows_loaded [OF this]
  obtain vs e where fy: "yield_rows ?st (filter (\<lambda>r. row_audience r = audience (ucan_dlg u)) (rows ?st)) = (vs, e)"
    by fastforce
  ultimately have "r \<in> set (filter (\<lambda>r. row_audience r = audience (ucan_dlg u)) (rows ?st))"
    "row_to_delegation ?st r = Inr u" using r(1) by simp_all
  then have "u \<in> set vs" using yl fy yield_rows_member by (metis fst_conv)
  moreover have "e = None" using yl fy by simp
  moreover have "set vs \<subseteq> set us" using yield_rows_within [OF w] fy by (metis fst_conv)
  ultimately show ?thesis unfolding find_delegations_def using fy by simp
qed

text \<open>
  C8. Round trip of the store: on a store reachable by content-addressed writes, after \<open>putMany\<close> of a batch every delegation of the batch is yielded by \<open>find\<close> for its audience, and \<open>find\<close> throws no error.
\<close>

theorem find_after_put:
  assumes ca: "content_addressed us" and reach: "store_reach us st"
    and ds: "set ds \<subseteq> set us" and u: "u \<in> set ds"
  shows "\<exists>vs. find_delegations (audience (ucan_dlg u)) (put_many ds st) = (vs, None) \<and> u \<in> set vs"
  using find_put_within [OF ca reach ds u] by blast

text \<open>
  C13. On a store reachable by content-addressed writes, the iterator throws exactly when the database cannot stream (\<open>NotImplementedError\<close>), and otherwise yields one delegation per row.
\<close>

theorem iterate_reachable:
  assumes ca: "content_addressed us" and reach: "store_reach us st"
  shows "(snd (iterate st) = None \<longleftrightarrow> can_stream st) \<and>
         (can_stream st \<longrightarrow> int (length (fst (iterate st))) = count_rows st)"
proof -
  have "\<forall>r \<in> set (rows st). row_loaded st r"
    using store_reach_inv [OF reach ca] unfolding store_inv_def by blast
  note yl = yield_rows_loaded [OF this]
  have "snd (iterate st) = None \<longleftrightarrow> can_stream st"
    using yl by (simp add: iterate_def)
  moreover have "can_stream st \<longrightarrow> int (length (fst (iterate st))) = count_rows st"
    using yl list_all2_lengthD by (fastforce simp: iterate_def count_rows_def)
  ultimately show ?thesis ..
qed

text \<open>
  C10. A delegation whose CID is version 0 is stored under the key of its version-0 CID text, while its row records the version-1 text; \<open>find\<close> then looks for the version-1 key and throws \<open>failed to read car bytes\<close>.
\<close>

theorem find_v0_missing:
  assumes "ucan_version u = CidV0"
  shows "find_delegations (audience (ucan_dlg u)) (put_many [u] (empty_store b)) =
           ([], Some (MissingCar (CidV1, cid (ucan_dlg u))))"
  using assms
  by (simp add: find_delegations_def put_many_def empty_store_def write_delegations_def write_entries_def
      create_row_update_def row_to_delegation_def ucan_cid_def to_v1_def car_file_key_def)

text \<open>
  C7. Invariant of the store: every state reachable from an empty store by \<open>putMany\<close> of content-addressed delegations has rows with distinct CIDs, each of which loads back (from the bucket) the delegation it indexes.
\<close>

theorem store_reach_consistent:
  "content_addressed us \<Longrightarrow> store_reach us st \<Longrightarrow> store_inv st"
  using store_reach_inv by blast

end
