(* ===== verification/Storage_Stream.thy ===== *)
theory Storage_Stream
  imports Storage "HOL-Library.While_Combinator"
begin

text \<open>
  The two async generators of \<open>DbDelegationsStorageWithR2\<close>, \<open>find\<close>
  (part_000 lines 116--127) and \<open>[Symbol.asyncIterator]\<close> (lines 129--144),
  as resumable state machines. A generator is created without running its
  body; the first \<open>next()\<close> runs the body up to the first \<open>yield\<close> (the
  select of \<open>find\<close>, the \<open>canStream\<close> check of the iterator), every later
  \<open>next()\<close> resumes the \<open>for await\<close> loop at the next row, and a throw or
  the end of the rows closes the generator. Each yield awaits
  \<open>#rowToDelegation\<close>, which reads the bucket at that step.

  The consumer is a \<open>for await\<close> loop that collects what is yielded and
  catches the throw: \<open>drain\<close>, a \<open>while_option\<close> loop over the calls of
  \<open>next()\<close>. The list-level \<open>find_delegations\<close> and \<open>iterate\<close> of
  Storage are the reference: draining a generator gives them
  (\<open>drain_find_iterate\<close>), and on a reachable store a generator is
  closed after \<open>k\<close> calls of \<open>next()\<close> exactly when \<open>k\<close> exceeds its rows
  (\<open>generators_close\<close>).
  \<open>drain_from\<close> resumes the consumer from any state, so that a write can
  be placed between two calls (\<open>find_interleaved_put\<close>).
\<close>

section \<open>The generators\<close>

datatype gen = Created | Running "delegation_row list" | Closed

datatype iter_result = Yield ucan | Done | Throw storage_error

text \<open>One turn of \<open>for await (const row of rows) yield this.#rowToDelegation(row)\<close>.\<close>

fun rows_next :: "store \<Rightarrow> delegation_row list \<Rightarrow> iter_result \<times> gen" where
  "rows_next st [] = (Done, Closed)"
| "rows_next st (r # rs) =
     (case row_to_delegation st r of
        Inl e \<Rightarrow> (Throw e, Closed)
      | Inr d \<Rightarrow> (Yield d, Running rs))"

text \<open>
  \<open>next()\<close> of a generator whose body, up to its loop, is \<open>start\<close>.
\<close>

fun gen_next :: "(store \<Rightarrow> iter_result \<times> gen) \<Rightarrow> store \<Rightarrow> gen \<Rightarrow> iter_result \<times> gen" where
  "gen_next start st Created = start st"
| "gen_next start st (Running rs) = rows_next st rs"
| "gen_next start st Closed = (Done, Closed)"

text \<open>\<open>find\<close>: the rows of the audience are selected, then the loop starts.\<close>

definition find_start :: "did \<Rightarrow> store \<Rightarrow> iter_result \<times> gen" where
  "find_start aud st = rows_next st (filter (\<lambda>r. row_audience r = aud) (rows st))"

text \<open>The iterator: the \<open>canStream\<close> check, then the loop over all rows.\<close>

definition iterate_start :: "store \<Rightarrow> iter_result \<times> gen" where
  "iterate_start st =
     (if \<not> can_stream st then (Throw NotImplementedError, Closed) else rows_next st (rows st))"

section \<open>The consumer\<close>

text \<open>
  One iteration of the consumer: push what is yielded, record what is
  thrown; the state is the collected list, the generator and the error.
\<close>

definition consume_step ::
  "(gen \<Rightarrow> iter_result \<times> gen) \<Rightarrow> ucan list \<times> gen \<times> storage_error option \<Rightarrow>
     ucan list \<times> gen \<times> storage_error option" where
  "consume_step nx s =
     (case s of (acc, g, e) \<Rightarrow>
        (case nx g of
           (Yield d, g') \<Rightarrow> (acc @ [d], g', e)
         | (Throw x, g') \<Rightarrow> (acc, g', Some x)
         | (Done, g') \<Rightarrow> (acc, g', e)))"

text \<open>The consumer's loop from a state, and from a fresh generator.\<close>

definition drain_from ::
  "(gen \<Rightarrow> iter_result \<times> gen) \<Rightarrow> ucan list \<times> gen \<times> storage_error option \<Rightarrow>
     (ucan list \<times> storage_error option) option" where
  "drain_from nx s =
     map_option (\<lambda>(acc, g, e). (acc, e)) (while_option (\<lambda>(acc, g, e). g \<noteq> Closed) (consume_step nx) s)"

definition drain :: "(gen \<Rightarrow> iter_result \<times> gen) \<Rightarrow> (ucan list \<times> storage_error option) option" where
  "drain nx = drain_from nx ([], Created, None)"

text \<open>The generator after \<open>k\<close> calls of \<open>next()\<close>.\<close>

definition next_calls :: "nat \<Rightarrow> (gen \<Rightarrow> iter_result \<times> gen) \<Rightarrow> gen" where
  "next_calls k nx = ((\<lambda>g. snd (nx g)) ^^ k) Created"

text \<open>
  The invariant of the consumer over a loop on \<open>rs0\<close>: what is collected
  and what remains make up \<open>yield_rows\<close> of \<open>rs0\<close>; the measure is the
  number of calls still to come.
\<close>

fun drain_inv :: "store \<Rightarrow> delegation_row list \<Rightarrow> ucan list \<times> gen \<times> storage_error option \<Rightarrow> bool" where
  "drain_inv st rs0 (acc, Created, e) \<longleftrightarrow> False"
| "drain_inv st rs0 (acc, Running rs, e) \<longleftrightarrow>
     e = None \<and> yield_rows st rs0 = (acc @ fst (yield_rows st rs), snd (yield_rows st rs))"
| "drain_inv st rs0 (acc, Closed, e) \<longleftrightarrow> yield_rows st rs0 = (acc, e)"

fun gen_measure :: "gen \<Rightarrow> nat" where
  "gen_measure (Running rs) = length rs + 1"
| "gen_measure _ = 0"

section \<open>Closing\<close>

lemma closed_stays: "((\<lambda>g. snd (gen_next start st g)) ^^ k) Closed = Closed"
  by (induction k) simp_all

text \<open>
  Over rows that all load, the generator is running over the rest of its
  rows after \<open>k\<close> further calls, and closed once the calls exceed them.
\<close>

lemma rows_next_after:
  "\<forall>r \<in> set rs. row_loaded st r \<Longrightarrow>
     ((\<lambda>g. snd (gen_next start st g)) ^^ k) (snd (rows_next st rs)) =
       (if length rs \<le> k then Closed else Running (drop (Suc k) rs))"
proof (induction rs arbitrary: k)
  case Nil
  then show ?case by (simp add: closed_stays)
next
  case (Cons r rs)
  obtain d where d: "row_to_delegation st r = Inr d"
    using Cons.prems row_loaded_to_delegation by fastforce
  show ?case
  proof (cases k)
    case 0
    with d show ?thesis by simp
  next
    case (Suc k')
    with d Cons.IH [of k'] Cons.prems show ?thesis
      by (simp add: funpow_Suc_right del: funpow.simps)
  qed
qed

lemma start_closes_iff:
  assumes "snd (start st) = snd (rows_next st rs)" and "\<forall>r \<in> set rs. row_loaded st r"
  shows "next_calls k (gen_next start st) = Closed \<longleftrightarrow> length rs < k"
proof (cases k)
  case 0
  then show ?thesis by (simp add: next_calls_def)
next
  case (Suc k')
  then show ?thesis using rows_next_after [OF assms(2), where start = start and k = k'] assms(1)
    by (simp add: next_calls_def funpow_Suc_right del: funpow.simps)
qed

section \<open>Draining\<close>

lemma consume_rows:
  assumes nx: "nx g = rows_next st rs"
    and y: "yield_rows st rs0 = (acc @ fst (yield_rows st rs), snd (yield_rows st rs))"
  shows "drain_inv st rs0 (consume_step nx (acc, g, None)) \<and>
         gen_measure (fst (snd (consume_step nx (acc, g, None)))) \<le> length rs"
proof (cases rs)
  case Nil
  with nx y show ?thesis by (simp add: consume_step_def)
next
  case (Cons r rs')
  show ?thesis
  proof (cases "row_to_delegation st r")
    case (Inl x)
    with nx y Cons show ?thesis by (simp add: consume_step_def)
  next
    case (Inr d)
    with nx y Cons show ?thesis by (simp add: consume_step_def split: prod.splits)
  qed
qed

lemma drain_from_rows:
  assumes r: "\<And>rs. nx (Running rs) = rows_next st rs" and init: "drain_inv st rs0 s"
  shows "drain_from nx s = Some (yield_rows st rs0)"
proof -
  let ?b = "\<lambda>(acc :: ucan list, g, e :: storage_error option). g \<noteq> Closed"
  let ?f = "\<lambda>s :: ucan list \<times> gen \<times> storage_error option. gen_measure (fst (snd s))"
  have step: "drain_inv st rs0 (consume_step nx s) \<and> ?f (consume_step nx s) < ?f s"
    if "drain_inv st rs0 s" "?b s" for s
  proof -
    obtain acc g e where s: "s = (acc, g, e)" by (cases s) auto
    show ?thesis
    proof (cases g)
      case (Running rs)
      with that s have y: "e = None" "yield_rows st rs0 = (acc @ fst (yield_rows st rs), snd (yield_rows st rs))"
        by simp_all
      have "drain_inv st rs0 (consume_step nx (acc, Running rs, None)) \<and>
            gen_measure (fst (snd (consume_step nx (acc, Running rs, None)))) \<le> length rs"
        by (rule consume_rows [where nx = nx and g = "Running rs", OF r y(2)])
      with s Running y(1) show ?thesis by simp
    qed (use that s in simp_all)
  qed
  obtain t where t: "while_option ?b (consume_step nx) s = Some t"
    using measure_while_option_Some [of "drain_inv st rs0" ?b "consume_step nx" ?f, OF step init]
    by blast
  have inv: "drain_inv st rs0 t"
    by (rule while_option_rule [where P = "drain_inv st rs0", OF _ t init]) (use step in blast)
  obtain acc g e where te: "t = (acc, g, e)" by (cases t) auto
  have "g = Closed" using while_option_stop [OF t] te by simp
  with inv te t show ?thesis by (simp add: drain_from_def)
qed

lemma drain_first:
  "drain nx = drain_from nx (consume_step nx ([], Created, None))"
  by (simp add: drain_def drain_from_def while_option_unfold [of _ _ "([], Created, None)"])

lemma drain_rows:
  assumes c: "nx Created = rows_next st rs0" and r: "\<And>rs. nx (Running rs) = rows_next st rs"
  shows "drain nx = Some (yield_rows st rs0)"
proof -
  have "drain_inv st rs0 (consume_step nx ([], Created, None))"
    using consume_rows [where nx = nx and g = Created and acc = "[]", OF c] by simp
  then show ?thesis unfolding drain_first by (rule drain_from_rows [OF r])
qed

lemma drain_throw: "nx Created = (Throw x, Closed) \<Longrightarrow> drain nx = Some ([], Some x)"
proof -
  assume c: "nx Created = (Throw x, Closed)"
  have "consume_step nx ([], Created, None) = ([], Closed, Some x)" by (simp add: consume_step_def c)
  then show ?thesis
    by (simp add: drain_def drain_from_def while_option_unfold [of _ _ "([], Created, None)"]
        while_option_unfold [of _ _ "([], Closed, Some x)"])
qed

section \<open>Writes between two calls of next()\<close>

text \<open>
  On a store reachable by content-addressed writes, \<open>putMany\<close> leaves the
  archive of every existing row as it was, so every row loads as before.
\<close>

lemma row_to_delegation_put:
  assumes ca: "content_addressed us" and reach: "store_reach us st" and ds: "set ds \<subseteq> set us"
    and r: "r \<in> set (rows st)"
  shows "row_to_delegation (put_many ds st) r = row_to_delegation st r"
proof (cases "ds = []")
  case True
  then show ?thesis by (simp add: put_many_def)
next
  case False
  have inv: "store_inv st" and w: "bucket_within us st" using store_reach_inv [OF reach ca] by blast+
  have ag: "batch_agrees ds st" by (rule batch_agrees_within [OF ca inv w ds])
  let ?k = "car_file_key (row_cid r)"
  obtain y where y: "dags st ?k = Some [y]" using inv r unfolding store_inv_def by (blast elim: row_loadedE)
  have "\<exists>v. write_delegations ds (dags st) ?k = Some v"
    using y by (auto simp: write_delegations_lookup split: list.split)
  then obtain v where v: "write_delegations ds (dags st) ?k = Some v" ..
  have "dags st ?k = Some v"
    using write_delegations_cases [OF v]
  proof
    assume "\<exists>u \<in> set ds. ?k = car_file_key (ucan_cid u) \<and> v = [u]"
    then obtain u where "u \<in> set ds" "row_cid r = ucan_cid u" "v = [u]" by auto
    with ag r show ?thesis unfolding batch_agrees_def by blast
  qed
  with v False show ?thesis by (simp add: row_to_delegation_def put_many_def Let_def)
qed

lemma rows_next_same:
  "(\<And>r. r \<in> set rs \<Longrightarrow> row_to_delegation st' r = row_to_delegation st r) \<Longrightarrow>
     rows_next st' rs = rows_next st rs"
  by (cases rs) simp_all

lemma yield_rows_same:
  "(\<And>r. r \<in> set rs \<Longrightarrow> row_to_delegation st' r = row_to_delegation st r) \<Longrightarrow>
     yield_rows st' rs = yield_rows st rs"
  by (induction rs) (simp_all split: sum.split)

section \<open>Properties of the generators\<close>

text \<open>
  C14. Termination of the generators, with its exact time: on a store
  reachable by content-addressed writes, the generator of \<open>find\<close> is closed
  after \<open>k\<close> calls of \<open>next()\<close> exactly when \<open>k\<close> exceeds the number of
  rows of the audience (one call per row and one that returns \<open>done\<close>); the
  iterator's exactly when \<open>k\<close> exceeds the number of rows, or after the first
  call when the database cannot stream.
\<close>

theorem generators_close:
  assumes ca: "content_addressed us" and reach: "store_reach us st"
  shows "(next_calls k (gen_next (find_start aud) st) = Closed \<longleftrightarrow>
            length (filter (\<lambda>r. row_audience r = aud) (rows st)) < k) \<and>
         (next_calls k (gen_next iterate_start st) = Closed \<longleftrightarrow>
            length (if can_stream st then rows st else []) < k)"
proof
  have loaded: "\<forall>r \<in> set (rows st). row_loaded st r"
    using store_reach_inv [OF reach ca] unfolding store_inv_def by blast
  then have "\<forall>r \<in> set (filter (\<lambda>r. row_audience r = aud) (rows st)). row_loaded st r" by simp
  then show "next_calls k (gen_next (find_start aud) st) = Closed \<longleftrightarrow>
      length (filter (\<lambda>r. row_audience r = aud) (rows st)) < k"
    by (rule start_closes_iff [OF find_start_def [THEN arg_cong [where f = snd]]])
  have "snd (iterate_start st) = snd (rows_next st (if can_stream st then rows st else []))"
    by (simp add: iterate_start_def)
  moreover have "\<forall>r \<in> set (if can_stream st then rows st else []). row_loaded st r" using loaded by simp
  ultimately show "next_calls k (gen_next iterate_start st) = Closed \<longleftrightarrow>
      length (if can_stream st then rows st else []) < k"
    by (rule start_closes_iff)
qed

text \<open>
  The generators refine the list-level model: a \<open>for await\<close> consumer
  of \<open>find\<close> collects exactly \<open>find_delegations\<close> and catches its error,
  and one of the iterator collects exactly \<open>iterate\<close>; in particular the
  consumer's loop returns.
\<close>

lemma drain_find_iterate:
  "drain (gen_next (find_start aud) st) = Some (find_delegations aud st) \<and>
   drain (gen_next iterate_start st) = Some (iterate st)"
proof
  show "drain (gen_next (find_start aud) st) = Some (find_delegations aud st)"
    unfolding find_delegations_def by (rule drain_rows) (simp_all add: find_start_def)
  show "drain (gen_next iterate_start st) = Some (iterate st)"
  proof (cases "can_stream st")
    case True
    then show ?thesis unfolding iterate_def by (simp add: drain_rows iterate_start_def)
  next
    case False
    then show ?thesis unfolding iterate_def by (simp add: drain_throw iterate_start_def)
  qed
qed

text \<open>
  C15. Ordering of a write and a running \<open>find\<close>: when \<open>putMany\<close> of
  content-addressed delegations runs after the first \<open>next()\<close> of a
  \<open>find\<close> generator, the consumer still collects exactly what \<open>find\<close>
  gives on the store before the write; the rows were selected at the first
  \<open>next()\<close>, and the archives read afterwards are unchanged.
\<close>

theorem find_interleaved_put:
  assumes ca: "content_addressed us" and reach: "store_reach us st" and ds: "set ds \<subseteq> set us"
  shows "drain_from (gen_next (find_start aud) (put_many ds st))
           (consume_step (gen_next (find_start aud) st) ([], Created, None)) = Some (find_delegations aud st)"
proof -
  let ?rs0 = "filter (\<lambda>r. row_audience r = aud) (rows st)"
  let ?st' = "put_many ds st"
  have same: "row_to_delegation ?st' r = row_to_delegation st r" if "r \<in> set ?rs0" for r
    using row_to_delegation_put [OF ca reach ds] that by simp
  have c: "gen_next (find_start aud) st Created = rows_next ?st' ?rs0"
    using rows_next_same [where rs = ?rs0 and st' = ?st' and st = st, OF same] by (simp add: find_start_def)
  have "drain_inv ?st' ?rs0 (consume_step (gen_next (find_start aud) st) ([], Created, None))"
    using consume_rows [where nx = "gen_next (find_start aud) st" and g = Created and acc = "[]", OF c] by simp
  then have "drain_from (gen_next (find_start aud) ?st') (consume_step (gen_next (find_start aud) st) ([], Created, None))
      = Some (yield_rows ?st' ?rs0)"
    by (rule drain_from_rows [rotated]) simp
  also have "yield_rows ?st' ?rs0 = find_delegations aud st"
    using yield_rows_same [where rs = ?rs0 and st' = ?st' and st = st, OF same] by (simp add: find_delegations_def)
  finally show ?thesis .
qed

end
