(* ===== verification/Accounts.thy ===== *)
theory Accounts
  imports Prelude
begin

text \<open>
  The account bookkeeping of \<open>src/unnamed/part_000\<close> (lines 220--337),
  class \<open>Accounts\<close>: account rows in the D1 table \<open>accounts\<close> and, per email,
  the list of encoded delegations saved in a KV namespace.

  The state is a record of the KV namespace (a map from keys to the JSON
  arrays stored there, parsed) and the table (a list of rows, each a map from
  column names to values). Delegations are encoded by \<open>delegationToString\<close>,
  outside the sources, which the operations take as a parameter \<open>enc\<close>.
  The D1 table fills its \<open>inserted_at\<close> and \<open>updated_at\<close> columns on insert
  (the schema of \<open>types/access-api-cf-db\<close>, outside the sources); the insert
  takes their value as a parameter.

  \<open>saveDelegation\<close> awaits a read of the key and then a write of it; two
  calls may interleave between the read and the write. \<open>save_read\<close> and
  \<open>save_write\<close> are these two steps; \<open>run_schedule\<close> runs several pending
  calls under a schedule that says which call takes its next step.
\<close>

record accounts_state =
  kv :: "string \<rightharpoonup> string list"
  account_rows :: "(string \<rightharpoonup> string) list"

text \<open>The \<open>voucher/redeem\<close> capability and the invocation \<open>create\<close> reads.\<close>

record voucher_redeem =
  vr_with :: did
  vr_account :: did
  vr_identity :: string

text \<open>
  \<open>String.prototype.replace\<close> with a string pattern: the first occurrence is
  replaced; an empty pattern matches at the start.
\<close>

function replace_first :: "string \<Rightarrow> string \<Rightarrow> string \<Rightarrow> string" where
  "replace_first pat rep s =
     (if take (length pat) s = pat then rep @ drop (length pat) s
      else case s of [] \<Rightarrow> [] | c # cs \<Rightarrow> c # replace_first pat rep cs)"
  by pat_completeness auto
termination
  by (relation "measure (\<lambda>(pat, rep, s). length s)") auto

declare replace_first.simps [simp del]

text \<open>\<open>create\<close> (lines 248--258): one row with the account, product, email and agent.\<close>

definition create_account ::
  "string \<Rightarrow> voucher_redeem \<Rightarrow> did \<Rightarrow> accounts_state \<Rightarrow> accounts_state" where
  "create_account now cap invoker st =
     st\<lparr>account_rows := account_rows st @
        [[''did'' \<mapsto> vr_account cap, ''product'' \<mapsto> vr_with cap,
          ''email'' \<mapsto> replace_first ''mailto:'' [] (vr_identity cap), ''agent'' \<mapsto> invoker,
          ''inserted_at'' \<mapsto> now, ''updated_at'' \<mapsto> now]]\<rparr>"

text \<open>The account \<open>get\<close> returns (the \<open>Account\<close> type).\<close>

record account =
  acc_did :: "string option"
  acc_agent :: "string option"
  acc_email :: "string option"
  acc_product :: "string option"
  acc_updated_at :: "string option"
  acc_inserted_at :: "string option"

text \<open>
  \<open>get\<close> (lines 265--287): the first row whose \<open>did\<close> is the argument. The
  source reads \<open>updated_at\<close> from the column \<open>update_at\<close>.
\<close>

definition get_account :: "string \<Rightarrow> accounts_state \<Rightarrow> account option" where
  "get_account d st =
     (case filter (\<lambda>r. r ''did'' = Some d) (account_rows st) of
        [] \<Rightarrow> None
      | r # _ \<Rightarrow> Some \<lparr>acc_did = r ''did'', acc_agent = r ''agent'', acc_email = r ''email'',
                       acc_product = r ''product'', acc_updated_at = r ''update_at'',
                       acc_inserted_at = r ''inserted_at''\<rparr>)"

text \<open>\<open>saveDelegation\<close> (lines 295--311), as its read and its write.\<close>

definition save_read :: "string \<Rightarrow> accounts_state \<Rightarrow> string list option" where
  "save_read email st = kv st email"

definition save_write ::
  "string \<Rightarrow> string \<Rightarrow> string list option \<Rightarrow> accounts_state \<Rightarrow> accounts_state" where
  "save_write email encoded accs st =
     (case accs of
        Some l \<Rightarrow> st\<lparr>kv := (kv st)(email \<mapsto> l @ [encoded])\<rparr>
      | None \<Rightarrow> st\<lparr>kv := (kv st)(email \<mapsto> [encoded])\<rparr>)"

definition save_delegation ::
  "('d \<Rightarrow> string) \<Rightarrow> string \<Rightarrow> 'd \<Rightarrow> accounts_state \<Rightarrow> accounts_state" where
  "save_delegation enc email d st = save_write email (enc d) (save_read email st) st"

text \<open>
  \<open>hasDelegations\<close> (lines 318--321): the stored text of a JSON array is
  never empty, so the key is truthy exactly when it is present.
\<close>

definition has_delegations :: "string \<Rightarrow> accounts_state \<Rightarrow> bool" where
  "has_delegations email st \<longleftrightarrow> kv st email \<noteq> None"

text \<open>\<open>getDelegations\<close> (lines 326--336).\<close>

definition get_delegations :: "string \<Rightarrow> accounts_state \<Rightarrow> string list option" where
  "get_delegations email st = kv st email"

section \<open>Interleaved saves\<close>

text \<open>
  A pending call of \<open>saveDelegation\<close> is about to read, has read (and holds
  what it read), or is done. A schedule lists the calls by position, one
  entry per step; a step of a finished call, or of no call, does nothing.
\<close>

datatype save_call =
    Pending string string
  | HasRead string string "string list option"
  | Finished

fun save_step :: "accounts_state \<times> save_call list \<Rightarrow> nat \<Rightarrow> accounts_state \<times> save_call list" where
  "save_step (st, cs) i =
     (if i < length cs then
        (case cs ! i of
           Pending e v \<Rightarrow> (st, cs[i := HasRead e v (save_read e st)])
         | HasRead e v r \<Rightarrow> (save_write e v r st, cs[i := Finished])
         | Finished \<Rightarrow> (st, cs))
      else (st, cs))"

definition run_schedule :: "nat list \<Rightarrow> accounts_state \<times> save_call list \<Rightarrow> accounts_state \<times> save_call list" where
  "run_schedule sched c = fold (\<lambda>i c. save_step c i) sched c"

section \<open>Properties of the account store\<close>

lemma replace_first_prefix: "replace_first pat rep (pat @ s) = rep @ s"
  by (subst replace_first.simps) simp

lemma save_delegation_kv:
  "kv (save_delegation enc email d st) =
     (kv st)(email \<mapsto> (case kv st email of Some l \<Rightarrow> l | None \<Rightarrow> []) @ [enc d])"
  by (simp add: save_delegation_def save_write_def save_read_def split: option.split)

text \<open>
  C18. Sequential \<open>saveDelegation\<close> calls for one email append the encoded delegations, in order, to what was stored.
\<close>

theorem saves_accumulate:
  "ds \<noteq> [] \<Longrightarrow> get_delegations email (fold (save_delegation enc email) ds st) =
     Some ((case kv st email of Some l \<Rightarrow> l | None \<Rightarrow> []) @ map enc ds)"
proof (induction ds arbitrary: st)
  case (Cons d ds)
  show ?case
  proof (cases "ds = []")
    case True
    then show ?thesis by (simp add: get_delegations_def save_delegation_kv)
  next
    case False
    with Cons.IH [of "save_delegation enc email d st"] show ?thesis
      by (simp add: save_delegation_kv get_delegations_def)
  qed
qed simp

text \<open>
  C16. Two calls of \<open>saveDelegation\<close> for one email that both read before either writes lose the first delegation: the result is that of the second call alone.
\<close>

theorem lost_update:
  "fst (run_schedule [0, 1, 0, 1] (st, [Pending e (enc d1), Pending e (enc d2)])) =
     save_delegation enc e d2 st"
  by (simp add: run_schedule_def save_delegation_def save_write_def save_read_def split: option.split)

text \<open>
  C17. Calls of \<open>saveDelegation\<close> for two different emails have the sequential effect under every interleaving of their steps.
\<close>

theorem distinct_emails_commute:
  assumes "e1 \<noteq> e2"
  shows "\<forall>sched \<in> set [[0, 0, 1, 1], [0, 1, 0, 1], [0, 1, 1, 0], [1, 0, 0, 1], [1, 0, 1, 0], [1, 1, 0, 0]].
           fst (run_schedule sched (st, [Pending e1 (enc d1), Pending e2 (enc d2)])) =
           save_delegation enc e2 d2 (save_delegation enc e1 d1 st)"
  using assms
  by (auto simp: run_schedule_def save_delegation_def save_write_def save_read_def fun_upd_twist
      split: option.split)

text \<open>
  C19. \<open>get\<close> after \<open>create\<close> returns the account, product, agent and the email without its \<open>mailto:\<close> prefix, and no \<open>updated_at\<close> (it is read from a column \<open>update_at\<close>).
\<close>

theorem create_get_account:
  assumes "\<forall>r \<in> set (account_rows st). r ''did'' \<noteq> Some (vr_account cap)"
    and "vr_identity cap = ''mailto:'' @ e"
  shows "get_account (vr_account cap) (create_account now cap invoker st) =
           Some \<lparr>acc_did = Some (vr_account cap), acc_agent = Some invoker, acc_email = Some e,
                 acc_product = Some (vr_with cap), acc_updated_at = None, acc_inserted_at = Some now\<rparr>"
proof -
  have "filter (\<lambda>r. r ''did'' = Some (vr_account cap)) (account_rows st) = []"
    using assms(1) by (simp add: filter_empty_conv)
  moreover have "replace_first ''mailto:'' [] (vr_identity cap) = e"
    unfolding assms(2) by (simp only: replace_first_prefix append_Nil)
  ultimately show ?thesis by (simp add: get_account_def create_account_def)
qed

end
