(* ===== verification/Spec2Isabelle.thy ===== *)
theory Spec2Isabelle
  imports Scenarios Authorization Storage_Stream Accounts
begin

text \<open>
  A verification model of the authorization query of w3up
  (\<open>src/packages/w3up-client/src/authorization/query.js\<close>) and of the engine
  it runs on, of the delegation store and the account store of
  \<open>src/unnamed/part_000\<close>, and of the test scenarios of \<open>src/unnamed/part_001\<close>.

  How the parts interact: delegations (with nested proofs) are projected into
  facts and indexed; \<open>query\<close> builds a clause tree from a selector with the
  matchers \<open>match\<close>, \<open>explicit\<close> and \<open>implicit\<close>; the engine evaluates it
  to bindings; \<open>Authorization.find\<close> turns the bindings into records. The
  delegation store and the account store are the persistence layer the
  delegations come from; they share no state with the engine, and
  \<open>stored_grant_found\<close> composes them: a grant written by \<open>putMany\<close> and
  read back by \<open>find\<close> is resolved by \<open>Authorization.find\<close>.

  Theories and the parts they model:
  \<^item> \<open>Prelude\<close>: base types (DIDs and abilities as strings, content
    identifiers as naturals, epoch times as integers), ordered union without
    repetition, sequencing of error-or-list results, traversals in the state
    monad, map extension.
  \<^item> \<open>Datalog_Term\<close>: scalars, logic variables and terms, bindings as maps
    from variable numbers to scalars, unification, and \<open>fresh\<close>, the
    variable allocator (\<open>DB.string()\<close>, \<open>DB.link()\<close>, \<open>DB.integer()\<close>) as
    a counter in the state monad.
  \<^item> \<open>Glob\<close>: the \<open>*\<close>-wildcard matcher and the language of a pattern.
  \<^item> \<open>Fact_Index\<close>: the fact index, built by insertion, looked up by attribute.
  \<^item> \<open>Clause_Eval\<close>: clauses, the evaluator \<open>eval\<close> with construction
    errors as \<open>Inl\<close>, its declarative semantics \<open>sat\<close> (\<open>eval_correct\<close>:
    sound and complete), and the static check \<open>safe\<close> (\<open>eval_no_error\<close>).
  \<^item> \<open>Projection\<close>: delegations and their facts; the index of a delegation
    set, unchanged by repeating the set or adding a nested proof.
  \<^item> \<open>Matchers\<close>: the agent-module matchers (from the spec) and
    \<open>explicit\<close>, \<open>implicit\<close>, \<open>match\<close> of query.js (lines 116--212), each
    allocating its variables in the order the JavaScript evaluates its default
    parameters; \<open>account_match\<close>, the \<open>Account.match\<close> of the agent
    modules (an implicit match on a \<open>did:mailto:\<close> subject); what each
    matcher's clause means over a delegation store.
  \<^item> \<open>Query\<close>: \<open>query\<close> of query.js (lines 35--99), the run of a query, and
    the records of \<open>Authorization.find\<close>.
  \<^item> \<open>Resolution\<close>: the resolver's contract over delegations (explicit and
    implicit proofs, attestation) and its soundness, completeness for direct
    grants, and the absence of construction errors.
  \<^item> \<open>Authorization\<close>: allocation of the groups, the expiration boundary,
    the records' coverage of the bindings, and the types of the
    selected variables (\<open>query_binding_types\<close>: strings and links, as
    \<open>DB.string()\<close> and \<open>DB.link()\<close> declare them).
  \<^item> \<open>Scenarios\<close>: eleven tests of part_001 and \<open>setupAccount\<close>,
    evaluated against the values they assert (lemmas that document the
    model, not properties of it).
  \<^item> \<open>Storage\<close>: \<open>DbDelegationsStorageWithR2\<close> (part_000 lines 21--219) as a
    record of bucket, table and streaming flag, passed through \<open>putMany\<close>;
    its invariant over reachable states (an inductive predicate, proved by
    rule induction), reading back, idempotence and the exact count after
    \<open>putMany\<close> (\<open>count_put_many\<close>: one row per new CID).
  \<^item> \<open>Storage_Stream\<close>: \<open>find\<close> and \<open>[Symbol.asyncIterator]\<close> as the async
    generators they are: a generator state (created, running over the
    selected rows, closed) resumed by \<open>next()\<close>, and a \<open>for await\<close>
    consumer as a \<open>while_option\<close> loop. On a reachable store a generator
    is closed after \<open>k\<close> calls of \<open>next()\<close> exactly when \<open>k\<close> exceeds its
    rows (\<open>generators_close\<close>, the termination of the loops with their
    exact time). The consumer returns and collects the list-level
    \<open>find_delegations\<close> and \<open>iterate\<close> (\<open>drain_find_iterate\<close>, by
    \<open>measure_while_option_Some\<close> with the number of calls still to come as
    measure). A \<open>putMany\<close> between two
    calls of \<open>next()\<close> of a running \<open>find\<close> does not change what it
    collects (\<open>find_interleaved_put\<close>): the rows are selected at the first
    call and the archives of existing rows are never rewritten differently.
  \<^item> \<open>Accounts\<close>: class \<open>Accounts\<close> (part_000 lines 220--337) over a record of
    the KV namespace and the accounts table; \<open>saveDelegation\<close> also as its
    two await steps run under a schedule: interleavings lose updates for
    one email (\<open>lost_update\<close>) and commute for distinct emails.

  The engine (datalogia), the agent modules that query.js imports and
  \<open>Authorization.find\<close> are not under \<open>src/\<close>; they are modelled from the
  spec (sections 4.1 to 4.6). Everything else is translated from the sources.

  Findings the development proves: a delegation with a version-0 CID cannot
  be read back from the store (\<open>find_v0_missing\<close>); \<open>Accounts.get\<close> never
  returns \<open>updated_at\<close> (\<open>create_get_account\<close>); two concurrent
  \<open>saveDelegation\<close> calls for one email lose one delegation
  (\<open>lost_update\<close>). Two tests expect separate records where the
  spec's grouping law, as modelled, merges them (the lemmas
  \<open>scenario_expiration\<close> and \<open>scenario_any_ability\<close>): the repository's
  \<open>Authorization.find\<close>, outside the sources, does not merge those.

  Modelling choices: the time of a query is an integer (the JavaScript
  \<open>Date.now() / 1000\<close> is fractional; an integer expiration is at or after a
  fractional time exactly when it is at or after its ceiling); query() never
  rejects a time, negative or not. The evaluator does not check variable
  types (every variable ranges over all scalars); that the selected
  variables nonetheless get their declared types is a theorem. A
  capability's entity is the pair of its delegation and its position. No
  definition uses fuel: every loop is structural recursion or a \<open>fold\<close>
  over a list, \<open>replace_first\<close> terminates on the length of its text, and
  the one loop kept as a loop, the consumer of a generator, is a
  \<open>while_option\<close> whose return is proved. The generator model reads the
  table once, at the first \<open>next()\<close>, also for the streaming iterator; the
  bucket is read at every step. The implicit match of query.js is one level
  deep (its TODO at line 178): no resolution follows proof chains, so none
  can fail to terminate on a cyclic delegation graph.

  Not modelled: the archive codec, the SQL and KV engines beyond the
  operations the code calls, signatures, and the tests that use
  the \<open>Spaces\<close> and \<open>Space\<close> queries of modules outside the sources
  (\<open>find account spaces\<close>, \<open>find capabilities grouped by spaces\<close>).
\<close>

section \<open>The resolver\<close>

text \<open>
  The soundness of the resolver on the first test scenario: the store holds
  one \<open>store/add\<close> grant from a space to alice, and alice asks for
  \<open>store/add\<close>.
\<close>

theorem query_sound_witness:
  "\<exists>bs. run_query (db_index [store_add_grant]) (build_query 1000 sel_store_add) = Inr bs \<and>
        length bs = 1 \<and>
        (\<forall>b \<in> set bs. \<exists>a sj.
           term_value b (select_audience (build_query 1000 sel_store_add)) = Some (Str a) \<and>
           term_value b (select_subject (build_query 1000 sel_store_add)) = Some (Str sj) \<and>
           text_ok (q_audience sel_store_add) a \<and> text_ok (query_subject sel_store_add) sj \<and>
           (\<forall>pg \<in> set (select_proofs (build_query 1000 sel_store_add)).
              group_authorized [store_add_grant] (query_time 1000 sel_store_add) a sj b pg))"
proof -
  have wf: "cid_wf [store_add_grant]"
    by code_simp
  have r: "map_sum id length (run_query (db_index [store_add_grant]) (build_query 1000 sel_store_add)) = Inr 1"
    by code_simp
  then obtain bs where e: "run_query (db_index [store_add_grant]) (build_query 1000 sel_store_add) = Inr bs"
    by (cases "run_query (db_index [store_add_grant]) (build_query 1000 sel_store_add)") auto
  show ?thesis using r e query_sound [OF wf e] by auto
qed

text \<open>
  Completeness on the first scenario: the grant to alice is found with the
  space as subject.
\<close>

theorem query_complete_explicit_witness:
  "\<exists>bs. run_query (db_index [store_add_grant]) (build_query 1000 sel_store_add) = Inr bs \<and>
     (\<exists>b \<in> set bs.
        term_value b (select_subject (build_query 1000 sel_store_add)) = Some (Str space_did) \<and>
        term_value b (select_audience (build_query 1000 sel_store_add)) = Some (Str alice) \<and>
        (\<forall>pg \<in> set (select_proofs (build_query 1000 sel_store_add)).
           term_value b (pg_proof pg) = Some (Lnk (Ucan 1))))"
proof -
  let ?c = "\<lparr>can = ''store/add'', cwith = space_did, nb = []\<rparr>"
  have wf: "cid_wf [store_add_grant]" by code_simp
  have d: "store_add_grant \<in> set (all_delegations [store_add_grant])" "?c \<in> set (capabilities store_add_grant)"
    by (simp_all add: store_add_grant_def all_delegations_def)
  have live: "unexpired_at (Num (query_time 1000 sel_store_add)) store_add_grant"
    by (simp add: unexpired_at_def store_add_grant_def)
  have key: "\<not> glob_match ''did:mailto:*'' (issuer store_add_grant)"
    by code_simp
  have sel: "q_audience sel_store_add = Exact (audience store_add_grant)"
    "q_can sel_store_add = [can ?c]" "text_ok (query_subject sel_store_add) (cwith ?c)"
    by (simp_all add: sel_store_add_def store_add_grant_def query_subject_def)
  from query_complete_explicit [OF wf d live key sel] show ?thesis
    by (simp add: store_add_grant_def)
qed

section \<open>The delegation store\<close>

definition grant_ucan :: ucan where
  "grant_ucan = \<lparr>ucan_version = CidV1, ucan_dlg = store_add_grant\<rparr>"

text \<open>
  The store after one \<open>putMany\<close> of the grant is reachable and consistent,
  the grant is found again by its audience, and the iterator reads it back
  when the database streams and fails when it does not.
\<close>

theorem store_reach_consistent_witness:
  "content_addressed [grant_ucan] \<and> store_reach [grant_ucan] (put_many [grant_ucan] (empty_store True)) \<and>
   store_inv (put_many [grant_ucan] (empty_store True))"
proof -
  have ca: "content_addressed [grant_ucan]" by (simp add: content_addressed_def grant_ucan_def)
  have r: "store_reach [grant_ucan] (put_many [grant_ucan] (empty_store True))"
    by (rule reach_put [OF reach_empty]) simp
  show ?thesis using ca r store_reach_consistent [OF ca r] by blast
qed

theorem find_after_put_witness:
  "\<exists>vs. find_delegations alice (put_many [grant_ucan] (empty_store True)) = (vs, None) \<and> grant_ucan \<in> set vs"
proof -
  have ca: "content_addressed [grant_ucan]" by (simp add: content_addressed_def grant_ucan_def)
  have "audience (ucan_dlg grant_ucan) = alice" by (simp add: grant_ucan_def store_add_grant_def)
  with find_after_put [OF ca reach_empty [of "[grant_ucan]" True], of "[grant_ucan]" grant_ucan]
  show ?thesis by simp
qed

theorem iterate_reachable_witness:
  "snd (iterate (put_many [grant_ucan] (empty_store False))) \<noteq> None \<and>
   length (fst (iterate (put_many [grant_ucan] (empty_store True)))) = 1"
proof -
  have ca: "content_addressed [grant_ucan]" by (simp add: content_addressed_def grant_ucan_def)
  have r: "store_reach [grant_ucan] (put_many [grant_ucan] (empty_store b))" for b
    by (rule reach_put [OF reach_empty]) simp
  have c: "count_rows (put_many [grant_ucan] (empty_store True)) = 1"
    by (simp add: count_rows_def put_many_def empty_store_def)
  have "\<not> can_stream (put_many [grant_ucan] (empty_store False))"
    "can_stream (put_many [grant_ucan] (empty_store True))"
    by (simp_all add: put_many_def empty_store_def Let_def)
  moreover note iterate_reachable [OF ca r [of False]] iterate_reachable [OF ca r [of True]]
  ultimately show ?thesis using c by simp
qed

theorem find_v0_missing_witness:
  "find_delegations alice (put_many [\<lparr>ucan_version = CidV0, ucan_dlg = store_add_grant\<rparr>] (empty_store True)) =
     ([], Some (MissingCar (CidV1, 1)))"
  using find_v0_missing [of "\<lparr>ucan_version = CidV0, ucan_dlg = store_add_grant\<rparr>" True]
  by (simp add: store_add_grant_def)

text \<open>
  After one \<open>putMany\<close> of the grant the table has one row, addressed to
  alice: one call of \<open>next()\<close> leaves \<open>find\<close> running, the second
  closes it, and likewise the iterator.
\<close>

theorem generators_close_witness:
  "next_calls 1 (gen_next (find_start alice) (put_many [grant_ucan] (empty_store True))) \<noteq> Closed \<and>
   next_calls 2 (gen_next (find_start alice) (put_many [grant_ucan] (empty_store True))) = Closed \<and>
   next_calls 1 (gen_next iterate_start (put_many [grant_ucan] (empty_store True))) \<noteq> Closed \<and>
   next_calls 2 (gen_next iterate_start (put_many [grant_ucan] (empty_store True))) = Closed"
proof -
  let ?st = "put_many [grant_ucan] (empty_store True)"
  have ca: "content_addressed [grant_ucan]" by (simp add: content_addressed_def grant_ucan_def)
  have r: "store_reach [grant_ucan] ?st" by (rule reach_put [OF reach_empty]) simp
  have n: "length (filter (\<lambda>r. row_audience r = alice) (rows ?st)) = 1"
    "length (if can_stream ?st then rows ?st else []) = 1" by code_simp+
  show ?thesis
    using generators_close [OF ca r, where k = 1 and aud = alice]
      generators_close [OF ca r, where k = 2 and aud = alice] n by simp
qed

text \<open>
  A second share to alice, stored after the first \<open>next()\<close> of a
  \<open>find\<close> for alice, is not collected by that \<open>find\<close>.
\<close>

theorem find_interleaved_put_witness:
  "drain_from (gen_next (find_start alice)
       (put_many [\<lparr>ucan_version = CidV1, ucan_dlg = share 2 space_did alice None\<rparr>]
          (put_many [grant_ucan] (empty_store True))))
     (consume_step (gen_next (find_start alice) (put_many [grant_ucan] (empty_store True))) ([], Created, None)) =
   Some (find_delegations alice (put_many [grant_ucan] (empty_store True)))"
proof -
  let ?u = "\<lparr>ucan_version = CidV1, ucan_dlg = share 2 space_did alice None\<rparr>"
  have ca: "content_addressed [grant_ucan, ?u]" by code_simp
  have r: "store_reach [grant_ucan, ?u] (put_many [grant_ucan] (empty_store True))"
    by (rule reach_put [OF reach_empty]) simp
  show ?thesis by (rule find_interleaved_put [OF ca r]) simp
qed

section \<open>Delegations read back from the store\<close>

text \<open>
  C9. The store and the resolver together: a direct grant stored by
  \<open>putMany\<close> (on a store reachable by content-addressed writes), read
  back by \<open>find\<close> for its audience, and given to \<open>Authorization.find\<close>
  with a selector for its ability and audience, yields a record of that
  audience and the grant's subject citing the grant.
\<close>

theorem stored_grant_found:
  assumes ca: "content_addressed us" and wf: "cid_wf (map ucan_dlg us)" and reach: "store_reach us st"
    and ds: "set ds \<subseteq> set us" and u: "u \<in> set ds" and c: "c \<in> set (capabilities (ucan_dlg u))"
    and live: "unexpired_at (Num (query_time now sel)) (ucan_dlg u)"
    and key: "\<not> glob_match ''did:mailto:*'' (issuer (ucan_dlg u))"
    and sel: "q_audience sel = Exact (audience (ucan_dlg u))" "q_can sel = [can c]"
      "text_ok (query_subject sel) (cwith c)"
  shows "\<exists>vs rs. find_delegations (audience (ucan_dlg u)) (put_many ds st) = (vs, None) \<and>
           find_authorizations (map ucan_dlg vs) now sel = Inr rs \<and>
           (\<exists>r \<in> set rs. authority r = audience (ucan_dlg u) \<and> auth_subject r = cwith c \<and>
                         cid (ucan_dlg u) \<in> set (auth_proofs r))"
proof -
  obtain vs where f: "find_delegations (audience (ucan_dlg u)) (put_many ds st) = (vs, None)"
    and uv: "u \<in> set vs" and vs: "set vs \<subseteq> set us"
    using find_put_within [OF ca reach ds u] by blast
  have "set (map ucan_dlg vs) \<subseteq> set (map ucan_dlg us)" using vs by auto
  then have wf': "cid_wf (map ucan_dlg vs)" by (rule cid_wf_mono [OF wf])
  have d: "ucan_dlg u \<in> set (all_delegations (map ucan_dlg vs))" using uv by (simp add: in_all_delegations)
  obtain bs b where "run_query (db_index (map ucan_dlg vs)) (build_query now sel) = Inr bs" "b \<in> set bs"
    "term_value b (select_subject (build_query now sel)) = Some (Str (cwith c))"
    "term_value b (select_audience (build_query now sel)) = Some (Str (audience (ucan_dlg u)))"
    "\<forall>pg \<in> set (select_proofs (build_query now sel)). term_value b (pg_proof pg) = Some (Lnk (Ucan (cid (ucan_dlg u))))"
    using explicit_grant_found [OF wf' d c live key sel] by blast
  from find_authorizations_binding [OF this] f show ?thesis by blast
qed

theorem stored_grant_found_witness:
  "\<exists>vs rs. find_delegations alice (put_many [grant_ucan] (empty_store True)) = (vs, None) \<and>
     find_authorizations (map ucan_dlg vs) 1000 sel_store_add = Inr rs \<and>
     (\<exists>r \<in> set rs. authority r = alice \<and> auth_subject r = space_did \<and> 1 \<in> set (auth_proofs r))"
proof -
  let ?c = "\<lparr>can = ''store/add'', cwith = space_did, nb = []\<rparr>"
  have ca: "content_addressed [grant_ucan]" by (simp add: content_addressed_def grant_ucan_def)
  have wf: "cid_wf (map ucan_dlg [grant_ucan])" by code_simp
  have c: "?c \<in> set (capabilities (ucan_dlg grant_ucan))" by (simp add: grant_ucan_def store_add_grant_def)
  have live: "unexpired_at (Num (query_time 1000 sel_store_add)) (ucan_dlg grant_ucan)" by code_simp
  have key: "\<not> glob_match ''did:mailto:*'' (issuer (ucan_dlg grant_ucan))" by code_simp
  have sel: "q_audience sel_store_add = Exact (audience (ucan_dlg grant_ucan))" "q_can sel_store_add = [can ?c]"
    "text_ok (query_subject sel_store_add) (cwith ?c)" by code_simp+
  from stored_grant_found [OF ca wf reach_empty [of _ True] _ _ c live key sel, of "[grant_ucan]"]
  show ?thesis by (simp add: grant_ucan_def store_add_grant_def)
qed

section \<open>The resolver as a whole\<close>

text \<open>
  The expiration boundary on the expired share of the test: it is found at
  time 800 and not at time 1000.
\<close>

theorem expiration_boundary_witness:
  "(\<exists>bs. run_query (db_index [expired_share]) (build_query 0 (sel_any_at 800)) = Inr bs \<and> bs \<noteq> []) \<and>
   \<not> (\<exists>bs. run_query (db_index [expired_share]) (build_query 0 (sel_any_at 1000)) = Inr bs \<and> bs \<noteq> [])"
proof -
  let ?c = "\<lparr>can = ''*'', cwith = space_did, nb = []\<rparr>"
  have h: "proofs expired_share = []" "?c \<in> set (capabilities expired_share)"
    "\<not> glob_match ''did:mailto:*'' (issuer expired_share)"
    by (simp_all add: expired_share_def share_def space_did_def)
  have s: "q_audience (sel_any_at t) = Exact (audience expired_share)" "q_can (sel_any_at t) = [can ?c]"
    "text_ok (query_subject (sel_any_at t)) (cwith ?c)" for t
    by (simp_all add: sel_any_at_def selector_of_def expired_share_def share_def query_subject_def)
  have e: "expiration expired_share = Some 900" by (simp add: expired_share_def share_def)
  have t: "query_time 0 (sel_any_at t) = t" for t by (simp add: query_time_def sel_any_at_def selector_of_def)
  show ?thesis
    using expiration_boundary [OF h s [of 800], of 0] expiration_boundary [OF h s [of 1000], of 0] e t
    by simp
qed

text \<open>The declared types hold on the first scenario's answer.\<close>

theorem query_binding_types_witness:
  "\<exists>bs. run_query (db_index [store_add_grant]) (build_query 1000 sel_store_add) = Inr bs \<and> bs \<noteq> [] \<and>
        (\<forall>b \<in> set bs. \<forall>(x, ty) \<in> set (declared_types (build_query 1000 sel_store_add)).
           has_type ty (term_value b x))"
proof -
  have wf: "cid_wf [store_add_grant]" by code_simp
  have r: "map_sum id length (run_query (db_index [store_add_grant]) (build_query 1000 sel_store_add)) = Inr 1"
    by code_simp
  then obtain bs where e: "run_query (db_index [store_add_grant]) (build_query 1000 sel_store_add) = Inr bs"
    by (cases "run_query (db_index [store_add_grant]) (build_query 1000 sel_store_add)") auto
  show ?thesis using r e query_binding_types [OF wf e] by auto
qed

section \<open>The account store\<close>

definition no_accounts :: accounts_state where
  "no_accounts = \<lparr>kv = Map.empty, account_rows = []\<rparr>"

theorem saves_accumulate_witness:
  "get_delegations ''alice@web.mail'' (fold (save_delegation id ''alice@web.mail'') [''d1'', ''d2''] no_accounts) =
     Some [''d1'', ''d2'']"
  using saves_accumulate [where ds = "[''d1'', ''d2'']" and enc = id and email = "''alice@web.mail''" and st = no_accounts]
  by (simp add: no_accounts_def)

theorem distinct_emails_commute_witness:
  "fst (run_schedule [0, 1, 0, 1] (no_accounts, [Pending ''a@x'' ''d1'', Pending ''b@x'' ''d2''])) =
     save_delegation id ''b@x'' ''d2'' (save_delegation id ''a@x'' ''d1'' no_accounts)"
proof -
  have "''a@x'' \<noteq> ''b@x''" by simp
  from distinct_emails_commute [of "''a@x''" "''b@x''" no_accounts id "''d1''" "''d2''", OF this] show ?thesis by simp
qed

theorem create_get_account_witness:
  "get_account ''did:mailto:web.mail:alice''
     (create_account ''t0'' \<lparr>vr_with = ''did:web:web3.storage'', vr_account = ''did:mailto:web.mail:alice'',
                             vr_identity = ''mailto:alice@web.mail''\<rparr> ''did:key:agent'' no_accounts) =
   Some \<lparr>acc_did = Some ''did:mailto:web.mail:alice'', acc_agent = Some ''did:key:agent'',
         acc_email = Some ''alice@web.mail'', acc_product = Some ''did:web:web3.storage'',
         acc_updated_at = None, acc_inserted_at = Some ''t0''\<rparr>"
proof -
  let ?cap = "\<lparr>vr_with = ''did:web:web3.storage'', vr_account = ''did:mailto:web.mail:alice'',
               vr_identity = ''mailto:alice@web.mail''\<rparr>"
  have "\<forall>r \<in> set (account_rows no_accounts). r ''did'' \<noteq> Some (vr_account ?cap)"
    by (simp add: no_accounts_def)
  moreover have "vr_identity ?cap = ''mailto:'' @ ''alice@web.mail''" by simp
  ultimately show ?thesis using create_get_account [where st = no_accounts and cap = ?cap and e = "''alice@web.mail''" and now = "''t0''" and invoker = "''did:key:agent''"]
    by simp
qed

end
